theory Spec2Isabelle
  imports Complex_Main "HOL-Library.Word"
begin

unbundle bit_operations_syntax

section \<open>The occlusion buffer of Turso3D/Renderer/OcclusionBuffer.cpp\<close>

text \<open>
  The development follows \<^verbatim>\<open>OcclusionBuffer.cpp\<close>. A C++ \<^verbatim>\<open>int\<close> is a HOL
  \<open>int\<close>: the sizes, coordinates and depths the functions handle are taken to stay inside
  the 32-bit range, where no operation of the file overflows (signed overflow has no defined
  result in C++); the clip masks, of type \<^verbatim>\<open>unsigned\<close>, are 32-bit words. A \<^verbatim>\<open>float\<close> is a \<open>real\<close>; the functions that do float arithmetic
  (matrix transforms, edge clipping, facing test) live in headers and enter as parameters, so
  the source itself only compares floats, adds a constant and truncates them.

  An array is the memory its base pointer reaches: \<open>count\<close> is the number of allocated
  elements and \<open>cell\<close> the contents by offset. The C++ code reads with unchecked pointer
  arithmetic, so a read at any offset returns whatever the memory holds there; the theorems
  below quantify over all contents, inside and outside the allocation.
\<close>

subsection \<open>Data\<close>

record 'a array =
  count :: int
  cell :: "int \<Rightarrow> 'a"

definition newArray :: "int \<Rightarrow> (int \<Rightarrow> 'a) \<Rightarrow> 'a array" where
  \<comment> \<open>\<^verbatim>\<open>new T[n]\<close>: \<open>n\<close> elements with the (uninitialised) contents \<open>garbage\<close>.\<close>
  "newArray n garbage = \<lparr>count = n, cell = garbage\<rparr>"

text \<open>\<^verbatim>\<open>struct DepthValue { int min; int max; }\<close>, one cell of a mip level.\<close>

record DepthValue =
  min_d :: int
  max_d :: int

record Vector3 =
  x :: real
  y :: real
  z :: real

record Vector4 = Vector3 +
  w :: real

record BoundingBox =
  min_b :: Vector3
  max_b :: Vector3

record IntRect =
  left :: int
  top :: int
  right :: int
  bottom :: int

text \<open>The per-slice rasterization task: its slice index and scanline range.\<close>

record RasterizeTrianglesTask =
  sliceIdx :: nat
  startY :: int
  endY :: int

type_synonym Matrix4 = "real list list"

text \<open>
  A projected triangle with its interpolation gradients, and the per-batch task that
  collects the triangles and, per slice, the indices of the triangles that touch it.
\<close>

record Gradients =
  dInvZdX :: real
  dInvZdY :: real
  dInvZdXInt :: int

record GradientTriangle =
  vertices :: "Vector3 list"
  gradients :: Gradients

record GenerateTrianglesTask =
  triangles :: "GradientTriangle list"
  triangleIndices :: "nat list list"

text \<open>A pointer into an array: the block and the offset of the pointer inside it.\<close>

type_synonym 'a pointer = "'a array \<times> int"

text \<open>
  The members of \<^verbatim>\<open>OcclusionBuffer\<close> the functions below read or write. The member
  \<open>buffer\<close> (\<open>None\<close> for the null pointer) points at the first pixel inside the block
  \<open>fullBuffer\<close>, past the guard border; the block is the first component of the pointer.
\<close>

record OcclusionBuffer =
  buffer :: "int pointer option"
  width :: int
  height :: int
  sliceHeight :: int
  activeSlices :: int
  rasterizeTrianglesTasks :: "RasterizeTrianglesTask list"
  mipBuffers :: "DepthValue array list"
  numTriangleBatches :: nat
  numReadyMipBuffers :: nat
  viewProj :: Matrix4
  scaleX :: real
  scaleY :: real
  offsetX :: real
  offsetY :: real

text \<open>
  What the source takes from headers that are not part of the files at hand
  (\<^verbatim>\<open>OcclusionBuffer.h\<close>, \<^verbatim>\<open>Math/*.h\<close>): the two constants, the helper
  \<^verbatim>\<open>IsPowerOfTwo\<close>, the inline float functions, and the contents of freshly allocated
  memory. They are parameters of the model.
\<close>

record platform =
  OCCLUSION_BUFFER_SLICES :: int
  OCCLUSION_MIN_SIZE :: int
  IsPowerOfTwo :: "int \<Rightarrow> bool"
  uninitInt :: "int \<Rightarrow> int"
  uninitDepth :: "int \<Rightarrow> DepthValue"
  ModelTransform :: "Matrix4 \<Rightarrow> Vector3 \<Rightarrow> Vector4"
  ViewportTransform :: "OcclusionBuffer \<Rightarrow> Vector4 \<Rightarrow> Vector3"
  DotProduct :: "Vector4 \<Rightarrow> Vector4 \<Rightarrow> real"
  ClipEdge :: "Vector4 \<Rightarrow> Vector4 \<Rightarrow> real \<Rightarrow> real \<Rightarrow> Vector4"
  CheckFacing :: "Vector3 \<Rightarrow> Vector3 \<Rightarrow> Vector3 \<Rightarrow> bool"
  Calculate :: "Vector3 list \<Rightarrow> Gradients"

subsection \<open>SetSize and CalculateViewport\<close>

definition CalculateViewport :: "OcclusionBuffer \<Rightarrow> OcclusionBuffer" where
  "CalculateViewport s =
     s\<lparr>scaleX := 0.5 * real_of_int (width s),
       scaleY := - 0.5 * real_of_int (height s),
       offsetX := 0.5 * real_of_int (width s) + 0.5,
       offsetY := 0.5 * real_of_int (height s) + 0.5\<rparr>"

text \<open>
  The slice loop of \<^verbatim>\<open>SetSize\<close> (lines 68-78): it stops at the first slice that
  would start at or below the last row.
\<close>

function SetSize_slices :: "platform \<Rightarrow> OcclusionBuffer \<Rightarrow> int \<Rightarrow> OcclusionBuffer" where
  "SetSize_slices env s i =
     (if i < OCCLUSION_BUFFER_SLICES env then
        (if i * sliceHeight s < height s then
           SetSize_slices env
             (s\<lparr>rasterizeTrianglesTasks :=
                  (rasterizeTrianglesTasks s)[nat i :=
                     (rasterizeTrianglesTasks s ! nat i)
                       \<lparr>startY := i * sliceHeight s,
                        endY := min ((i + 1) * sliceHeight s) (height s)\<rparr>],
                activeSlices := activeSlices s + 1\<rparr>)
             (i + 1)
         else s)
      else s)"
  by pat_completeness auto
termination
  by (relation "measure (\<lambda>(env, s, i). nat (OCCLUSION_BUFFER_SLICES env - i))") auto

text \<open>
  The mip loop of \<^verbatim>\<open>SetSize\<close> (lines 86-95), a \<^verbatim>\<open>for (;;)\<close> that halves first
  and tests afterwards. With a minimum size below 1 it never leaves, so its result is an
  option. Both operands of each division are positive here, where C++ division and
  \<open>div\<close> agree.
\<close>

partial_function (option) SetSize_mips ::
  "platform \<Rightarrow> int \<Rightarrow> int \<Rightarrow> DepthValue array list \<Rightarrow> DepthValue array list option" where
  "SetSize_mips env newWidth newHeight mips =
     (if (newWidth + 1) div 2 \<le> OCCLUSION_MIN_SIZE env \<and>
         (newHeight + 1) div 2 \<le> OCCLUSION_MIN_SIZE env
      then Some (mips @ [newArray (((newWidth + 1) div 2) * ((newHeight + 1) div 2)) (uninitDepth env)])
      else SetSize_mips env ((newWidth + 1) div 2) ((newHeight + 1) div 2)
             (mips @ [newArray (((newWidth + 1) div 2) * ((newHeight + 1) div 2)) (uninitDepth env)]))"

declare SetSize_mips.simps [code]

text \<open>
  \<^verbatim>\<open>SetSize\<close>. The first statement increments the stored \<open>height\<close> when it is odd, and
  the power-of-two test reads the stored \<open>width\<close>: both are as the source has them.
  The result is \<open>None\<close> when the call does not return.
\<close>

definition SetSize ::
  "platform \<Rightarrow> OcclusionBuffer \<Rightarrow> int \<Rightarrow> int \<Rightarrow> (bool \<times> OcclusionBuffer) option" where
  "SetSize env s0 newWidth newHeight =
     (let s = (if odd (height s0) then s0\<lparr>height := height s0 + 1\<rparr> else s0) in
      if newWidth = width s \<and> newHeight = height s then Some (True, s)
      else if newWidth \<le> 0 \<or> newHeight \<le> 0 then Some (False, s)
      else if \<not> IsPowerOfTwo env (width s) then Some (False, s)
      else
        let s = s\<lparr>width := newWidth, height := newHeight,
                  sliceHeight := newHeight div OCCLUSION_BUFFER_SLICES env + 1,
                  activeSlices := 0\<rparr>;
            s = SetSize_slices env s 0;
            s = s\<lparr>buffer := Some (newArray (width s * (height s + 2) + 2) (uninitInt env),
                                   width s + 1),
                  mipBuffers := []\<rparr>
        in case SetSize_mips env newWidth newHeight (mipBuffers s) of
             None \<Rightarrow> None
           | Some mips \<Rightarrow> Some (True, CalculateViewport (s\<lparr>mipBuffers := mips\<rparr>)))"

subsection \<open>IsVisible\<close>

text \<open>
  A loop of the source either leaves the function with a result or falls through with the
  values of its variables.
\<close>

datatype 'a flow = Returned bool | Continue 'a

definition shr :: "int \<Rightarrow> nat \<Rightarrow> int" where
  \<comment> \<open>\<^verbatim>\<open>v >> n\<close> on an \<^verbatim>\<open>int\<close>: the arithmetic shift.\<close>
  "shr v n = v div 2 ^ n"

definition int_cast :: "real \<Rightarrow> int" where
  \<comment> \<open>\<^verbatim>\<open>(int)f\<close>: truncation towards zero.\<close>
  "int_cast r = (if 0 \<le> r then \<lfloor>r\<rfloor> else \<lceil>r\<rceil>)"

text \<open>The eight corners, in the order of lines 200-207.\<close>

definition boxCorners :: "BoundingBox \<Rightarrow> Vector3 list" where
  "boxCorners b =
     [min_b b,
      \<lparr>x = x (max_b b), y = y (min_b b), z = z (min_b b)\<rparr>,
      \<lparr>x = x (min_b b), y = y (max_b b), z = z (min_b b)\<rparr>,
      \<lparr>x = x (max_b b), y = y (max_b b), z = z (min_b b)\<rparr>,
      \<lparr>x = x (min_b b), y = y (min_b b), z = z (max_b b)\<rparr>,
      \<lparr>x = x (max_b b), y = y (min_b b), z = z (max_b b)\<rparr>,
      \<lparr>x = x (min_b b), y = y (max_b b), z = z (max_b b)\<rparr>,
      max_b b]"

text \<open>
  The loop of lines 221-233 over the corners 1 to 7, on the local variables
  \<^verbatim>\<open>minX, maxX, minY, maxY, minZ\<close>: a corner at or behind the near plane leaves the
  function with \<open>true\<close>.
\<close>

fun IsVisible_project ::
  "platform \<Rightarrow> OcclusionBuffer \<Rightarrow> Vector4 list \<Rightarrow> real \<times> real \<times> real \<times> real \<times> real
     \<Rightarrow> (real \<times> real \<times> real \<times> real \<times> real) flow" where
  "IsVisible_project env s [] (minX, maxX, minY, maxY, minZ) =
     Continue (minX, maxX, minY, maxY, minZ)"
| "IsVisible_project env s (v # vs) (minX, maxX, minY, maxY, minZ) =
     (if z v \<le> 0 then Returned True
      else
        let projected = ViewportTransform env s v
        in IsVisible_project env s vs
             (if x projected < minX then x projected else minX,
              if x projected > maxX then x projected else maxX,
              if y projected < minY then y projected else minY,
              if y projected > maxY then y projected else maxY,
              if z projected < minZ then z projected else minZ))"

text \<open>Lines 236-249: the rectangle of the box, clipped to the buffer.\<close>

definition IsVisible_rect :: "OcclusionBuffer \<Rightarrow> real \<Rightarrow> real \<Rightarrow> real \<Rightarrow> real \<Rightarrow> IntRect" where
  "IsVisible_rect s minX maxX minY maxY =
     (let rect = \<lparr>left = int_cast (minX - 1.5), top = int_cast (minY - 1.5),
                  right = int_cast (maxX + 0.5), bottom = int_cast (maxY + 0.5)\<rparr>;
          rect = (if left rect < 0 then rect\<lparr>left := 0\<rparr> else rect);
          rect = (if top rect < 0 then rect\<lparr>top := 0\<rparr> else rect);
          rect = (if right rect \<ge> width s then rect\<lparr>right := width s - 1\<rparr> else rect);
          rect = (if bottom rect \<ge> height s then rect\<lparr>bottom := height s - 1\<rparr> else rect)
      in rect)"

text \<open>
  The inner loop of lines 271-278 over the cells \<open>src\<close> to \<open>endp\<close> of one row of a mip
  level, and the row loop of lines 267-280. The row loop advances by \<open>mipWidth\<close>; with
  \<open>mipWidth = 0\<close> it never leaves, so its result is an option.
\<close>

function IsVisible_mipSpan ::
  "int \<Rightarrow> DepthValue array \<Rightarrow> int \<Rightarrow> int \<Rightarrow> bool \<Rightarrow> bool flow" where
  "IsVisible_mipSpan zt mip src endp allOccluded =
     (if src \<le> endp then
        (if zt \<le> min_d (cell mip src) then Returned True
         else IsVisible_mipSpan zt mip (src + 1) endp
                (if zt \<le> max_d (cell mip src) then False else allOccluded))
      else Continue allOccluded)"
  by pat_completeness auto
termination
  by (relation "measure (\<lambda>(zt, mip, src, endp, allOccluded). nat (endp + 1 - src))") auto

partial_function (option) IsVisible_mipRows ::
  "int \<Rightarrow> DepthValue array \<Rightarrow> int \<Rightarrow> int \<Rightarrow> int \<Rightarrow> int \<Rightarrow> int \<Rightarrow> bool \<Rightarrow> bool flow option" where
  "IsVisible_mipRows zt mip mipWidth lf rt row endRow allOccluded =
     (if row \<le> endRow then
        (case IsVisible_mipSpan zt mip (row + lf) (row + rt) allOccluded of
           Returned b \<Rightarrow> Some (Returned b)
         | Continue a \<Rightarrow> IsVisible_mipRows zt mip mipWidth lf rt (row + mipWidth) endRow a)
      else Some (Continue allOccluded))"

declare IsVisible_mipRows.simps [code]

text \<open>The pixel-level loops of lines 287-300, reading through the pointer \<open>buffer\<close>.\<close>

function IsVisible_pixelSpan :: "int \<Rightarrow> int array \<Rightarrow> int \<Rightarrow> int \<Rightarrow> unit flow" where
  "IsVisible_pixelSpan zt blk src endp =
     (if src \<le> endp then
        (if zt \<le> cell blk src then Returned True
         else IsVisible_pixelSpan zt blk (src + 1) endp)
      else Continue ())"
  by pat_completeness auto
termination
  by (relation "measure (\<lambda>(zt, blk, src, endp). nat (endp + 1 - src))") auto

partial_function (option) IsVisible_pixelRows ::
  "int \<Rightarrow> int array \<Rightarrow> int \<Rightarrow> int \<Rightarrow> int \<Rightarrow> int \<Rightarrow> int \<Rightarrow> bool option" where
  "IsVisible_pixelRows zt blk wd lf rt row endRow =
     (if row \<le> endRow then
        (case IsVisible_pixelSpan zt blk (row + lf) (row + rt) of
           Returned b \<Rightarrow> Some b
         | Continue u \<Rightarrow> IsVisible_pixelRows zt blk wd lf rt (row + wd) endRow)
      else Some False)"

declare IsVisible_pixelRows.simps [code]

text \<open>
  The loop of lines 255-284 from the coarsest ready level \<open>n - 1\<close> down to level 0,
  followed by the pixel-level test of lines 287-302.
\<close>

fun IsVisible_levels ::
  "OcclusionBuffer \<Rightarrow> int pointer \<Rightarrow> IntRect \<Rightarrow> int \<Rightarrow> nat \<Rightarrow> bool option" where
  "IsVisible_levels s buf rect zt 0 =
     IsVisible_pixelRows zt (fst buf) (width s) (left rect) (right rect)
       (snd buf + top rect * width s) (snd buf + bottom rect * width s)"
| "IsVisible_levels s buf rect zt (Suc i) =
     (let shift = i + 1;
          mipWidth = shr (width s) shift;
          lf = shr (left rect) shift;
          rt = shr (right rect) shift
      in case IsVisible_mipRows zt (mipBuffers s ! i) mipWidth lf rt
                (shr (top rect) shift * mipWidth) (shr (bottom rect) shift * mipWidth) True of
           None \<Rightarrow> None
         | Some (Returned b) \<Rightarrow> Some b
         | Some (Continue allOccluded) \<Rightarrow>
             if allOccluded then Some False else IsVisible_levels s buf rect zt i)"

text \<open>\<^verbatim>\<open>IsVisible\<close>; \<open>None\<close> when the call does not return.\<close>

definition IsVisible :: "platform \<Rightarrow> OcclusionBuffer \<Rightarrow> BoundingBox \<Rightarrow> bool option" where
  "IsVisible env s worldSpaceBox =
     (case buffer s of
        None \<Rightarrow> Some True
      | Some buf \<Rightarrow>
          if numTriangleBatches s = 0 then Some True
          else
            let vs = map (ModelTransform env (viewProj s)) (boxCorners worldSpaceBox) in
            if z (hd vs) \<le> 0 then Some True
            else
              let projected = ViewportTransform env s (hd vs)
              in case IsVisible_project env s (tl vs)
                        (x projected, x projected, y projected, y projected, z projected) of
                   Returned b \<Rightarrow> Some b
                 | Continue (minX, maxX, minY, maxY, minZ) \<Rightarrow>
                     IsVisible_levels s buf (IsVisible_rect s minX maxX minY maxY)
                       (int_cast minZ - width s) (numReadyMipBuffers s))"

subsection \<open>BuildDepthHierarchyWork\<close>

text \<open>
  The inner loops of lines 705-717 and 721-728: one row of level 0 from two pixel rows, or
  from one when the buffer has no second row. \<open>src\<close> and \<open>src2\<close> are offsets into the
  pixel block, \<open>dest\<close> and \<open>endp\<close> into the mip level.
\<close>

function Build_pixelRow2 ::
  "int array \<Rightarrow> int \<Rightarrow> int \<Rightarrow> int \<Rightarrow> int \<Rightarrow> DepthValue array \<Rightarrow> DepthValue array" where
  "Build_pixelRow2 blk src src2 dest endp mip =
     (if dest < endp then
        let minUpper = min (cell blk src) (cell blk (src + 1));
            minLower = min (cell blk src2) (cell blk (src2 + 1));
            mip = mip\<lparr>cell := (cell mip)(dest := (cell mip dest)\<lparr>min_d := min minUpper minLower\<rparr>)\<rparr>;
            maxUpper = max (cell blk src) (cell blk (src + 1));
            maxLower = max (cell blk src2) (cell blk (src2 + 1));
            mip = mip\<lparr>cell := (cell mip)(dest := (cell mip dest)\<lparr>max_d := max maxUpper maxLower\<rparr>)\<rparr>
        in Build_pixelRow2 blk (src + 2) (src2 + 2) (dest + 1) endp mip
      else mip)"
  by pat_completeness auto
termination
  by (relation "measure (\<lambda>(blk, src, src2, dest, endp, mip). nat (endp - dest))") auto

function Build_pixelRow1 ::
  "int array \<Rightarrow> int \<Rightarrow> int \<Rightarrow> int \<Rightarrow> DepthValue array \<Rightarrow> DepthValue array" where
  "Build_pixelRow1 blk src dest endp mip =
     (if dest < endp then
        let mip = mip\<lparr>cell := (cell mip)(dest := (cell mip dest)
                     \<lparr>min_d := min (cell blk src) (cell blk (src + 1))\<rparr>)\<rparr>;
            mip = mip\<lparr>cell := (cell mip)(dest := (cell mip dest)
                     \<lparr>max_d := max (cell blk src) (cell blk (src + 1))\<rparr>)\<rparr>
        in Build_pixelRow1 blk (src + 2) (dest + 1) endp mip
      else mip)"
  by pat_completeness auto
termination
  by (relation "measure (\<lambda>(blk, src, dest, endp, mip). nat (endp - dest))") auto

text \<open>The row loop of lines 696-730 that fills level 0.\<close>

function Build_pixelRows ::
  "int pointer \<Rightarrow> int \<Rightarrow> int \<Rightarrow> int \<Rightarrow> int \<Rightarrow> int \<Rightarrow> DepthValue array \<Rightarrow> DepthValue array" where
  "Build_pixelRows buf wd ht mipWidth mipHeight yy mip =
     (if yy < mipHeight then
        let src = snd buf + (yy * 2) * wd;
            dest = yy * mipWidth;
            endp = dest + mipWidth;
            mip = (if yy * 2 + 1 < ht
                   then Build_pixelRow2 (fst buf) src (src + wd) dest endp mip
                   else Build_pixelRow1 (fst buf) src dest endp mip)
        in Build_pixelRows buf wd ht mipWidth mipHeight (yy + 1) mip
      else mip)"
  by pat_completeness auto
termination
  by (relation "measure (\<lambda>(buf, wd, ht, mipWidth, mipHeight, yy, mip). nat (mipHeight - yy))") auto

text \<open>The same loops for a level above 0 (lines 742-776), reading the level below.\<close>

function Build_mipRow2 ::
  "DepthValue array \<Rightarrow> int \<Rightarrow> int \<Rightarrow> int \<Rightarrow> int \<Rightarrow> DepthValue array \<Rightarrow> DepthValue array" where
  "Build_mipRow2 prev src src2 dest endp mip =
     (if dest < endp then
        let minUpper = min (min_d (cell prev src)) (min_d (cell prev (src + 1)));
            minLower = min (min_d (cell prev src2)) (min_d (cell prev (src2 + 1)));
            mip = mip\<lparr>cell := (cell mip)(dest := (cell mip dest)\<lparr>min_d := min minUpper minLower\<rparr>)\<rparr>;
            maxUpper = max (max_d (cell prev src)) (max_d (cell prev (src + 1)));
            maxLower = max (max_d (cell prev src2)) (max_d (cell prev (src2 + 1)));
            mip = mip\<lparr>cell := (cell mip)(dest := (cell mip dest)\<lparr>max_d := max maxUpper maxLower\<rparr>)\<rparr>
        in Build_mipRow2 prev (src + 2) (src2 + 2) (dest + 1) endp mip
      else mip)"
  by pat_completeness auto
termination
  by (relation "measure (\<lambda>(prev, src, src2, dest, endp, mip). nat (endp - dest))") auto

function Build_mipRow1 ::
  "DepthValue array \<Rightarrow> int \<Rightarrow> int \<Rightarrow> int \<Rightarrow> DepthValue array \<Rightarrow> DepthValue array" where
  "Build_mipRow1 prev src dest endp mip =
     (if dest < endp then
        let mip = mip\<lparr>cell := (cell mip)(dest := (cell mip dest)
                     \<lparr>min_d := min (min_d (cell prev src)) (min_d (cell prev (src + 1)))\<rparr>)\<rparr>;
            mip = mip\<lparr>cell := (cell mip)(dest := (cell mip dest)
                     \<lparr>max_d := max (max_d (cell prev src)) (max_d (cell prev (src + 1)))\<rparr>)\<rparr>
        in Build_mipRow1 prev (src + 2) (dest + 1) endp mip
      else mip)"
  by pat_completeness auto
termination
  by (relation "measure (\<lambda>(prev, src, dest, endp, mip). nat (endp - dest))") auto

function Build_mipRows ::
  "DepthValue array \<Rightarrow> int \<Rightarrow> int \<Rightarrow> int \<Rightarrow> int \<Rightarrow> int \<Rightarrow> DepthValue array \<Rightarrow> DepthValue array" where
  "Build_mipRows prev prevWidth prevHeight mipWidth mipHeight yy mip =
     (if yy < mipHeight then
        let src = (yy * 2) * prevWidth;
            dest = yy * mipWidth;
            endp = dest + mipWidth;
            mip = (if yy * 2 + 1 < prevHeight
                   then Build_mipRow2 prev src (src + prevWidth) dest endp mip
                   else Build_mipRow1 prev src dest endp mip)
        in Build_mipRows prev prevWidth prevHeight mipWidth mipHeight (yy + 1) mip
      else mip)"
  by pat_completeness auto
termination
  by (relation "measure (\<lambda>(prev, prevWidth, prevHeight, mipWidth, mipHeight, yy, mip). nat (mipHeight - yy))") auto

text \<open>
  The loop of lines 735-779 over the levels from \<open>i\<close> on; \<open>mipWidth\<close> and \<open>mipHeight\<close>
  are the sizes of level \<open>i - 1\<close> on entry. The sizes are positive wherever the buffer is
  allocated, where C++ division and \<open>div\<close> agree.
\<close>

function Build_levels :: "OcclusionBuffer \<Rightarrow> nat \<Rightarrow> int \<Rightarrow> int \<Rightarrow> OcclusionBuffer" where
  "Build_levels s i mipWidth mipHeight =
     (if i < length (mipBuffers s) then
        let prevWidth = mipWidth;
            prevHeight = mipHeight;
            mipWidth = (mipWidth + 1) div 2;
            mipHeight = (mipHeight + 1) div 2;
            s = s\<lparr>mipBuffers := (mipBuffers s)[i :=
                    Build_mipRows (mipBuffers s ! (i - 1)) prevWidth prevHeight mipWidth mipHeight 0
                      (mipBuffers s ! i)]\<rparr>;
            s = s\<lparr>numReadyMipBuffers := numReadyMipBuffers s + 1\<rparr>
        in Build_levels s (i + 1) mipWidth mipHeight
      else s)"
  by pat_completeness auto
termination
  by (relation "measure (\<lambda>(s, i, mipWidth, mipHeight). length (mipBuffers s) - i)") auto

text \<open>
  \<^verbatim>\<open>BuildDepthHierarchyWork\<close>. It takes \<^verbatim>\<open>mipBuffers[0]\<close> in every row of the first
  level (line 699) and reads through \<open>buffer\<close> in every cell of it (lines 707-724),
  without a test. The model reports an empty list of levels or a null buffer as an error
  where the source would touch them, and nowhere else: on a buffer that was never sized
  the first level has no row, the loops do not run and the function returns after counting
  the level.
\<close>

datatype error = NullBuffer | NoMipBuffer

definition BuildDepthHierarchyWork :: "OcclusionBuffer \<Rightarrow> error + OcclusionBuffer" where
  "BuildDepthHierarchyWork s =
     (let mipWidth = (width s + 1) div 2;
          mipHeight = (height s + 1) div 2
      in
        if 0 < mipHeight \<and> mipBuffers s = [] then Inl NoMipBuffer
        else if 0 < mipHeight \<and> 0 < mipWidth \<and> buffer s = None then Inl NullBuffer
        else
          let s = (case buffer s of
                     None \<Rightarrow> s
                   | Some buf \<Rightarrow>
                       s\<lparr>mipBuffers := (mipBuffers s)[0 :=
                           Build_pixelRows buf (width s) (height s) mipWidth mipHeight 0
                             (mipBuffers s ! 0)]\<rparr>);
              s = s\<lparr>numReadyMipBuffers := numReadyMipBuffers s + 1\<rparr>
          in Inr (Build_levels s 1 mipWidth mipHeight))"

subsection \<open>ClipVertices\<close>

text \<open>
  The state of a clipping pass: the array \<^verbatim>\<open>vertices[64 * 3]\<close>, the flags
  \<^verbatim>\<open>clipTriangles[64]\<close> and \<^verbatim>\<open>numClipTriangles\<close>.
\<close>

type_synonym clip_state = "Vector4 list \<times> bool list \<times> nat"

text \<open>
  The body of the loop of \<^verbatim>\<open>ClipVertices\<close> (lines 437-497) for the triangle \<open>i\<close>. The
  assignments are made in the order of the source; \<open>a = b = e\<close> stores \<open>e\<close> in \<open>b\<close>
  first.
\<close>

definition ClipVertices_body :: "platform \<Rightarrow> Vector4 \<Rightarrow> nat \<Rightarrow> clip_state \<Rightarrow> clip_state" where
  "ClipVertices_body env plane i st =
     (case st of (verts, clipTriangles, numClipTriangles) \<Rightarrow>
      if clipTriangles ! i then
        let index = i * 3;
            d0 = DotProduct env plane (verts ! index);
            d1 = DotProduct env plane (verts ! (index + 1));
            d2 = DotProduct env plane (verts ! (index + 2))
        in
          if d0 < 0 \<and> d1 < 0 \<and> d2 < 0 then
            (verts, clipTriangles[i := False], numClipTriangles)
          else if d0 < 0 \<and> d1 < 0 then
            let verts = verts[index := ClipEdge env (verts ! index) (verts ! (index + 2)) d0 d2];
                verts = verts[index + 1 := ClipEdge env (verts ! (index + 1)) (verts ! (index + 2)) d1 d2]
            in (verts, clipTriangles, numClipTriangles)
          else if d0 < 0 \<and> d2 < 0 then
            let verts = verts[index := ClipEdge env (verts ! index) (verts ! (index + 1)) d0 d1];
                verts = verts[index + 2 := ClipEdge env (verts ! (index + 2)) (verts ! (index + 1)) d2 d1]
            in (verts, clipTriangles, numClipTriangles)
          else if d1 < 0 \<and> d2 < 0 then
            let verts = verts[index + 1 := ClipEdge env (verts ! (index + 1)) (verts ! index) d1 d0];
                verts = verts[index + 2 := ClipEdge env (verts ! (index + 2)) (verts ! index) d2 d0]
            in (verts, clipTriangles, numClipTriangles)
          else if d0 < 0 then
            let newIdx = numClipTriangles * 3;
                clipTriangles = clipTriangles[numClipTriangles := True];
                numClipTriangles = numClipTriangles + 1;
                verts = verts[newIdx := ClipEdge env (verts ! index) (verts ! (index + 2)) d0 d2];
                verts = verts[index := ClipEdge env (verts ! index) (verts ! (index + 1)) d0 d1];
                verts = verts[newIdx + 1 := verts ! index];
                verts = verts[newIdx + 2 := verts ! (index + 2)]
            in (verts, clipTriangles, numClipTriangles)
          else if d1 < 0 then
            let newIdx = numClipTriangles * 3;
                clipTriangles = clipTriangles[numClipTriangles := True];
                numClipTriangles = numClipTriangles + 1;
                verts = verts[newIdx + 1 := ClipEdge env (verts ! (index + 1)) (verts ! index) d1 d0];
                verts = verts[index + 1 := ClipEdge env (verts ! (index + 1)) (verts ! (index + 2)) d1 d2];
                verts = verts[newIdx + 2 := verts ! (index + 1)];
                verts = verts[newIdx := verts ! index]
            in (verts, clipTriangles, numClipTriangles)
          else if d2 < 0 then
            let newIdx = numClipTriangles * 3;
                clipTriangles = clipTriangles[numClipTriangles := True];
                numClipTriangles = numClipTriangles + 1;
                verts = verts[newIdx + 2 := ClipEdge env (verts ! (index + 2)) (verts ! (index + 1)) d2 d1];
                verts = verts[index + 2 := ClipEdge env (verts ! (index + 2)) (verts ! index) d2 d0];
                verts = verts[newIdx := verts ! (index + 2)];
                verts = verts[newIdx + 1 := verts ! (index + 1)]
            in (verts, clipTriangles, numClipTriangles)
          else (verts, clipTriangles, numClipTriangles)
      else (verts, clipTriangles, numClipTriangles))"

text \<open>The loop of lines 435-498 over the triangles present when the pass starts.\<close>

function ClipVertices_loop ::
  "platform \<Rightarrow> Vector4 \<Rightarrow> nat \<Rightarrow> nat \<Rightarrow> clip_state \<Rightarrow> clip_state" where
  "ClipVertices_loop env plane trianglesNow i st =
     (if i < trianglesNow
      then ClipVertices_loop env plane trianglesNow (i + 1) (ClipVertices_body env plane i st)
      else st)"
  by pat_completeness auto
termination
  by (relation "measure (\<lambda>(env, plane, trianglesNow, i, st). trianglesNow - i)") auto

definition ClipVertices :: "platform \<Rightarrow> Vector4 \<Rightarrow> clip_state \<Rightarrow> clip_state" where
  "ClipVertices env plane st =
     (case st of (verts, clipTriangles, numClipTriangles) \<Rightarrow>
        ClipVertices_loop env plane numClipTriangles 0 st)"

subsection \<open>AddTriangle\<close>

definition CLIPMASK_X_POS :: "32 word" where "CLIPMASK_X_POS = 0x1"
definition CLIPMASK_X_NEG :: "32 word" where "CLIPMASK_X_NEG = 0x2"
definition CLIPMASK_Y_POS :: "32 word" where "CLIPMASK_Y_POS = 0x4"
definition CLIPMASK_Y_NEG :: "32 word" where "CLIPMASK_Y_NEG = 0x8"
definition CLIPMASK_Z_POS :: "32 word" where "CLIPMASK_Z_POS = 0x10"
definition CLIPMASK_Z_NEG :: "32 word" where "CLIPMASK_Z_NEG = 0x20"

text \<open>Lines 322-335: the clip mask of one vertex.\<close>

definition vertexClipMask :: "Vector4 \<Rightarrow> 32 word" where
  "vertexClipMask v =
     (let m = 0;
          m = (if x v > w v then m OR CLIPMASK_X_POS else m);
          m = (if x v < - w v then m OR CLIPMASK_X_NEG else m);
          m = (if y v > w v then m OR CLIPMASK_Y_POS else m);
          m = (if y v < - w v then m OR CLIPMASK_Y_NEG else m);
          m = (if z v > w v then m OR CLIPMASK_Z_POS else m);
          m = (if z v < 0 then m OR CLIPMASK_Z_NEG else m)
      in m)"

text \<open>The loop of lines 320-343 over the three vertices.\<close>

function AddTriangle_masks ::
  "Vector4 list \<Rightarrow> nat \<Rightarrow> 32 word \<Rightarrow> 32 word \<Rightarrow> 32 word \<times> 32 word" where
  "AddTriangle_masks verts i clipMask andClipMask =
     (if i < 3 then
        AddTriangle_masks verts (i + 1) (clipMask OR vertexClipMask (verts ! i))
          (if i = 0 then vertexClipMask (verts ! i)
           else andClipMask AND vertexClipMask (verts ! i))
      else (clipMask, andClipMask))"
  by pat_completeness auto
termination
  by (relation "measure (\<lambda>(verts, i, clipMask, andClipMask). 3 - i)") auto

text \<open>
  The slice loop of the fully-inside path (lines 368-374) and the slice loop of the clipped
  path (lines 418-424), each with its own test, for a triangle of vertical extent
  \<open>minY\<close> to \<open>maxY\<close> and index \<open>idx\<close>.
\<close>

function AddTriangle_slices_inside ::
  "OcclusionBuffer \<Rightarrow> int \<Rightarrow> int \<Rightarrow> nat \<Rightarrow> int \<Rightarrow> nat list list \<Rightarrow> nat list list" where
  "AddTriangle_slices_inside s minY maxY idx i indices =
     (if i < activeSlices s then
        let sliceStartY = i * sliceHeight s;
            sliceEndY = min (height s) (sliceStartY + sliceHeight s)
        in AddTriangle_slices_inside s minY maxY idx (i + 1)
             (if minY < sliceEndY \<and> maxY > sliceStartY
              then indices[nat i := indices ! nat i @ [idx]] else indices)
      else indices)"
  by pat_completeness auto
termination
  by (relation "measure (\<lambda>(s, minY, maxY, idx, i, indices). nat (activeSlices s - i))") auto

function AddTriangle_slices_clipped ::
  "OcclusionBuffer \<Rightarrow> int \<Rightarrow> int \<Rightarrow> nat \<Rightarrow> int \<Rightarrow> nat list list \<Rightarrow> nat list list" where
  "AddTriangle_slices_clipped s minY maxY idx j indices =
     (if j < activeSlices s then
        let startY = j * sliceHeight s;
            endY = startY + sliceHeight s
        in AddTriangle_slices_clipped s minY maxY idx (j + 1)
             (if minY < endY \<and> maxY \<ge> startY
              then indices[nat j := indices ! nat j @ [idx]] else indices)
      else indices)"
  by pat_completeness auto
termination
  by (relation "measure (\<lambda>(s, minY, maxY, idx, j, indices). nat (activeSlices s - j))") auto

text \<open>
  Lines 354-375 and 404-425: the facing test, the vertical extent, the new triangle and its
  slices, for the three viewport vertices \<open>pv\<close> of an accepted triangle.
\<close>

definition AddTriangle_inside ::
  "platform \<Rightarrow> OcclusionBuffer \<Rightarrow> GenerateTrianglesTask \<Rightarrow> Vector3 list \<Rightarrow> GenerateTrianglesTask" where
  "AddTriangle_inside env s task pv =
     (if CheckFacing env (pv ! 0) (pv ! 1) (pv ! 2) then
        let idx = length (triangles task);
            minY = min (min (int_cast (y (pv ! 0))) (int_cast (y (pv ! 1)))) (int_cast (y (pv ! 2)));
            maxY = max (max (int_cast (y (pv ! 0))) (int_cast (y (pv ! 1)))) (int_cast (y (pv ! 2)));
            task = task\<lparr>triangles := triangles task @ [\<lparr>vertices = pv, gradients = Calculate env pv\<rparr>]\<rparr>
        in task\<lparr>triangleIndices := AddTriangle_slices_inside s minY maxY idx 0 (triangleIndices task)\<rparr>
      else task)"

definition AddTriangle_accepted ::
  "platform \<Rightarrow> OcclusionBuffer \<Rightarrow> GenerateTrianglesTask \<Rightarrow> Vector3 list \<Rightarrow> GenerateTrianglesTask" where
  "AddTriangle_accepted env s task pv =
     (if CheckFacing env (pv ! 0) (pv ! 1) (pv ! 2) then
        let idx = length (triangles task);
            minY = min (min (int_cast (y (pv ! 0))) (int_cast (y (pv ! 1)))) (int_cast (y (pv ! 2)));
            maxY = max (max (int_cast (y (pv ! 0))) (int_cast (y (pv ! 1)))) (int_cast (y (pv ! 2)));
            task = task\<lparr>triangles := triangles task @ [\<lparr>vertices = pv, gradients = Calculate env pv\<rparr>]\<rparr>
        in task\<lparr>triangleIndices := AddTriangle_slices_clipped s minY maxY idx 0 (triangleIndices task)\<rparr>
      else task)"

text \<open>The loop of lines 399-427 over the triangles the clipping left.\<close>

function AddTriangle_clipped ::
  "platform \<Rightarrow> OcclusionBuffer \<Rightarrow> clip_state \<Rightarrow> nat \<Rightarrow> GenerateTrianglesTask \<Rightarrow> GenerateTrianglesTask" where
  "AddTriangle_clipped env s st i task =
     (case st of (verts, clipTriangles, numClipTriangles) \<Rightarrow>
      if i < numClipTriangles then
        AddTriangle_clipped env s st (i + 1)
          (if clipTriangles ! i then
             let index = i * 3
             in AddTriangle_accepted env s task
                  [ViewportTransform env s (verts ! index),
                   ViewportTransform env s (verts ! (index + 1)),
                   ViewportTransform env s (verts ! (index + 2))]
           else task)
      else task)"
  by pat_completeness auto
termination
  by (relation "measure (\<lambda>(env, s, st, i, task). snd (snd st) - i)") auto

text \<open>
  \<^verbatim>\<open>AddTriangle\<close>. \<open>verts\<close> is the caller's array of 192 vertices, the triangle in the
  first three; the local flags \<^verbatim>\<open>clipTriangles[64]\<close> start with the first set (the
  others are written before they are read).
\<close>

definition AddTriangle ::
  "platform \<Rightarrow> OcclusionBuffer \<Rightarrow> GenerateTrianglesTask \<Rightarrow> Vector4 list \<Rightarrow> GenerateTrianglesTask" where
  "AddTriangle env s task verts =
     (case AddTriangle_masks verts 0 0 0 of (clipMask, andClipMask) \<Rightarrow>
      if andClipMask \<noteq> 0 then task
      else if clipMask = 0 then
        AddTriangle_inside env s task
          [ViewportTransform env s (verts ! 0), ViewportTransform env s (verts ! 1),
           ViewportTransform env s (verts ! 2)]
      else
        let st = (verts, (replicate 64 False)[0 := True], 1);
            st = (if clipMask AND CLIPMASK_X_POS \<noteq> 0
                  then ClipVertices env \<lparr>x = - 1, y = 0, z = 0, w = 1\<rparr> st else st);
            st = (if clipMask AND CLIPMASK_X_NEG \<noteq> 0
                  then ClipVertices env \<lparr>x = 1, y = 0, z = 0, w = 1\<rparr> st else st);
            st = (if clipMask AND CLIPMASK_Y_POS \<noteq> 0
                  then ClipVertices env \<lparr>x = 0, y = - 1, z = 0, w = 1\<rparr> st else st);
            st = (if clipMask AND CLIPMASK_Y_NEG \<noteq> 0
                  then ClipVertices env \<lparr>x = 0, y = 1, z = 0, w = 1\<rparr> st else st);
            st = (if clipMask AND CLIPMASK_Z_POS \<noteq> 0
                  then ClipVertices env \<lparr>x = 0, y = 0, z = - 1, w = 1\<rparr> st else st);
            st = (if clipMask AND CLIPMASK_Z_NEG \<noteq> 0
                  then ClipVertices env \<lparr>x = 0, y = 0, z = 1, w = 0\<rparr> st else st)
        in AddTriangle_clipped env s st 0 task)"

subsection \<open>The sizes the specification names\<close>

text \<open>
  The specification's \<open>ceil(v/2)\<close>, the size after \<open>n\<close> halvings, and the number of
  halvings needed until both sizes are at most the minimum \<open>m\<close>. The last is meant for the
  positive sizes and minimum that \<^verbatim>\<open>SetSize\<close> works with and is 0 elsewhere.
\<close>

definition half_up :: "int \<Rightarrow> int" where
  "half_up v = \<lceil>real_of_int v / 2\<rceil>"

primrec halved :: "int \<Rightarrow> nat \<Rightarrow> int" where
  "halved v 0 = v"
| "halved v (Suc n) = half_up (halved v n)"

function halvings_until :: "int \<Rightarrow> int \<Rightarrow> int \<Rightarrow> nat" where
  "halvings_until m wd ht =
     (if (wd \<le> m \<and> ht \<le> m) \<or> m < 1 \<or> wd < 1 \<or> ht < 1 then 0
      else Suc (halvings_until m (half_up wd) (half_up ht)))"
  by pat_completeness auto
termination
proof (relation "measure (\<lambda>(m, wd, ht). nat (max wd ht))")
  show "wf (measure (\<lambda>(m, wd, ht). nat (max wd ht)))"
    by simp
next
  fix m wd ht :: int
  assume a: "\<not> ((wd \<le> m \<and> ht \<le> m) \<or> m < 1 \<or> wd < 1 \<or> ht < 1)"
  have hw: "half_up wd = (wd + 1) div 2" and hh: "half_up ht = (ht + 1) div 2"
    unfolding half_up_def by linarith+
  from a have "max ((wd + 1) div 2) ((ht + 1) div 2) < max wd ht"
    by (auto simp: max_def)
  with a show "((m, half_up wd, half_up ht), (m, wd, ht)) \<in> measure (\<lambda>(m, wd, ht). nat (max wd ht))"
    by (auto simp: hw hh max_def)
qed


text \<open>
  For the clipping claim: the number of vertices of triangle \<open>i\<close> with negative signed
  distance to the plane, and the number of triangles a step of the pass leaves for the
  candidate \<open>i\<close>: the candidate itself while its flag is set, and the triangles appended
  behind the \<open>n\<close> that were there.
\<close>

definition negativeCount :: "platform \<Rightarrow> Vector4 \<Rightarrow> Vector4 list \<Rightarrow> nat \<Rightarrow> nat" where
  "negativeCount env plane verts i =
     (if DotProduct env plane (verts ! (i * 3)) < 0 then 1 else 0) +
     (if DotProduct env plane (verts ! (i * 3 + 1)) < 0 then 1 else 0) +
     (if DotProduct env plane (verts ! (i * 3 + 2)) < 0 then 1 else 0)"

definition outputTriangles :: "nat \<Rightarrow> nat \<Rightarrow> clip_state \<Rightarrow> nat" where
  "outputTriangles i n st =
     (case st of (verts, clipTriangles, numClipTriangles) \<Rightarrow>
        (if clipTriangles ! i then 1 else 0) + (numClipTriangles - n))"

text \<open>
  The triangle at the place \<open>i\<close> of the vertex array, its corner \<open>q\<close> (0, 1 or 2) and the
  signed distance of that corner to the plane.
\<close>

type_synonym triangle = "Vector4 \<times> Vector4 \<times> Vector4"

definition triangleAt :: "Vector4 list \<Rightarrow> nat \<Rightarrow> triangle" where
  "triangleAt verts i = (verts ! (i * 3), verts ! (i * 3 + 1), verts ! (i * 3 + 2))"

definition corner :: "triangle \<Rightarrow> nat \<Rightarrow> Vector4" where
  "corner T q = (case T of (a, b, c) \<Rightarrow> if q = 0 then a else if q = 1 then b else c)"

definition signedDistance :: "platform \<Rightarrow> Vector4 \<Rightarrow> triangle \<Rightarrow> nat \<Rightarrow> real" where
  "signedDistance env plane T q = DotProduct env plane (corner T q)"

text \<open>
  Section 4.3 of the specification on two negative vertices: both edges to the positive
  vertex are clipped in place (same triangle, new vertices). \<open>T\<close> is the candidate, \<open>T'\<close>
  what the pass leaves at its place: the corner \<open>p\<close> that is not negative stays, each
  other corner is replaced by the clip of its edge to \<open>p\<close>.
\<close>

definition clippedInPlace :: "platform \<Rightarrow> Vector4 \<Rightarrow> triangle \<Rightarrow> triangle \<Rightarrow> bool" where
  "clippedInPlace env plane T T' \<longleftrightarrow>
     (\<exists>p \<in> {0, 1, 2}.
        \<not> signedDistance env plane T p < 0 \<and> corner T' p = corner T p \<and>
        (\<forall>q \<in> {0, 1, 2}. q \<noteq> p \<longrightarrow>
           corner T' q = ClipEdge env (corner T q) (corner T p)
                           (signedDistance env plane T q) (signedDistance env plane T p)))"

text \<open>
  Section 4.3 on one negative vertex: one edge-clipped triangle modifies in place; one new
  triangle is appended, sharing the two clipped edge points and the original positive
  vertices. \<open>q\<close> is the negative corner, \<open>r\<close> and \<open>t\<close> the corners after it in the order of
  the triangle, \<open>a\<close> and \<open>b\<close> the clips of the edges from \<open>q\<close> to \<open>r\<close> and to \<open>t\<close>. The
  triangle \<open>T'\<close> left in place has \<open>a\<close> for \<open>q\<close>; the appended \<open>Tn\<close> has \<open>b\<close> for \<open>q\<close>
  and \<open>a\<close> for \<open>r\<close>. Corner by corner both keep the order of \<open>T\<close>.
\<close>

definition splitInTwo :: "platform \<Rightarrow> Vector4 \<Rightarrow> triangle \<Rightarrow> triangle \<Rightarrow> triangle \<Rightarrow> bool" where
  "splitInTwo env plane T T' Tn \<longleftrightarrow>
     (\<exists>q \<in> {0, 1, 2}.
        signedDistance env plane T q < 0 \<and>
        (let r = (q + 1) mod 3;
             t = (q + 2) mod 3;
             a = ClipEdge env (corner T q) (corner T r)
                   (signedDistance env plane T q) (signedDistance env plane T r);
             b = ClipEdge env (corner T q) (corner T t)
                   (signedDistance env plane T q) (signedDistance env plane T t)
         in corner T' q = a \<and> corner T' r = corner T r \<and> corner T' t = corner T t \<and>
            corner Tn q = b \<and> corner Tn r = a \<and> corner Tn t = corner T t))"

text \<open>
  Modelled from the spec: \<^verbatim>\<open>ClipEdge\<close> is declared in a header that is not among the
  sources. Section 4.3: the edge-clip intersection parameter is \<open>t = d0 / (d0 - d1)\<close> using
  the two endpoint signed plane distances; the clipped point is the linear interpolation
  of position (homogeneous) at \<open>t\<close>.
\<close>

definition interpolate :: "Vector4 \<Rightarrow> Vector4 \<Rightarrow> real \<Rightarrow> Vector4" where
  "interpolate v0 v1 t =
     \<lparr>x = x v0 + t * (x v1 - x v0), y = y v0 + t * (y v1 - y v0),
      z = z v0 + t * (z v1 - z v0), w = w v0 + t * (w v1 - w v0)\<rparr>"

definition clipEdge :: "Vector4 \<Rightarrow> Vector4 \<Rightarrow> real \<Rightarrow> real \<Rightarrow> Vector4" where
  "clipEdge v0 v1 d0 d1 = (let t = d0 / (d0 - d1) in interpolate v0 v1 t)"

text \<open>
  The orientation of a triangle in homogeneous coordinates: the determinant of the
  \<open>(x, y, w)\<close> rows of its corners, whose sign is the winding of the projected triangle
  when the \<open>w\<close> are positive. A triangle keeps the orientation of another when its
  determinant has the same sign or is zero (it has collapsed to a line): it is never
  turned over.
\<close>

definition orientation :: "triangle \<Rightarrow> real" where
  "orientation T =
     (case T of (a, b, c) \<Rightarrow>
        x a * (y b * w c - w b * y c) - y a * (x b * w c - w b * x c) +
        w a * (x b * y c - y b * x c))"

definition keepsOrientation :: "triangle \<Rightarrow> triangle \<Rightarrow> bool" where
  "keepsOrientation T' T \<longleftrightarrow>
     orientation T' = 0 \<or> sgn (orientation T') = sgn (orientation T)"

text \<open>
  For the hierarchy claim: the raw depth of the pixel \<open>(px, py)\<close>; the cell of level
  \<open>n\<close> that covers a pixel (level 0 summarises 2 x 2 pixels, a level above 0 summarises
  2 x 2 cells of the level below); and the cell \<open>(cx, cy)\<close> of level \<open>n\<close>, the levels
  being stored row by row in the width \<^verbatim>\<open>SetSize\<close> gave them, which is the row stride
  of the builder (lines 693, 699, 739 and 745).
\<close>

definition pixelAt :: "OcclusionBuffer \<Rightarrow> int pointer \<Rightarrow> int \<Rightarrow> int \<Rightarrow> int" where
  "pixelAt s buf px py = cell (fst buf) (snd buf + py * width s + px)"

primrec cellOf :: "nat \<Rightarrow> int \<times> int \<Rightarrow> int \<times> int" where
  "cellOf 0 p = (fst p div 2, snd p div 2)"
| "cellOf (Suc n) p = (fst (cellOf n p) div 2, snd (cellOf n p) div 2)"

definition levelCell :: "OcclusionBuffer \<Rightarrow> nat \<Rightarrow> int \<times> int \<Rightarrow> DepthValue" where
  "levelCell s n c = cell (mipBuffers s ! n) (snd c * halved (width s) (Suc n) + fst c)"

text \<open>
  A device of the proofs: the pixels behind a pointer, each seen as a cell whose minimum and
  maximum are its depth.
\<close>

definition liftPixels :: "int pointer \<Rightarrow> DepthValue array" where
  "liftPixels buf =
     \<lparr>count = count (fst buf),
      cell = (\<lambda>i. \<lparr>min_d = cell (fst buf) (snd buf + i), max_d = cell (fst buf) (snd buf + i)\<rparr>)\<rparr>"

text \<open>
  Two more devices: what a cell written by a row loop satisfies (its interval holds the
  intervals of the cells below it that the loop read), and the hierarchy claim for the
  levels below \<open>n\<close> of a list of levels, over a buffer of \<open>wd\<close> by \<open>ht\<close> pixels.
\<close>

definition rowReduced ::
  "DepthValue array \<Rightarrow> int \<Rightarrow> int \<Rightarrow> int \<Rightarrow> int \<Rightarrow> DepthValue \<Rightarrow> bool" where
  "rowReduced prev prevWidth prevHeight cy cx c \<longleftrightarrow>
     min_d c \<le> min_d (cell prev (2 * cy * prevWidth + 2 * cx)) \<and>
     max_d (cell prev (2 * cy * prevWidth + 2 * cx)) \<le> max_d c \<and>
     min_d c \<le> min_d (cell prev (2 * cy * prevWidth + 2 * cx + 1)) \<and>
     max_d (cell prev (2 * cy * prevWidth + 2 * cx + 1)) \<le> max_d c \<and>
     (2 * cy + 1 < prevHeight \<longrightarrow>
        min_d c \<le> min_d (cell prev ((2 * cy + 1) * prevWidth + 2 * cx)) \<and>
        max_d (cell prev ((2 * cy + 1) * prevWidth + 2 * cx)) \<le> max_d c \<and>
        min_d c \<le> min_d (cell prev ((2 * cy + 1) * prevWidth + 2 * cx + 1)) \<and>
        max_d (cell prev ((2 * cy + 1) * prevWidth + 2 * cx + 1)) \<le> max_d c)"

definition conservative ::
  "int \<Rightarrow> int \<Rightarrow> int pointer \<Rightarrow> DepthValue array list \<Rightarrow> nat \<Rightarrow> bool" where
  "conservative wd ht buf mips n \<longleftrightarrow>
     (\<forall>k px py. k < n \<and> 0 \<le> px \<and> px < wd \<and> 0 \<le> py \<and> py < ht \<longrightarrow>
        min_d (cell (mips ! k) (snd (cellOf k (px, py)) * halved wd (Suc k) + fst (cellOf k (px, py))))
          \<le> cell (fst buf) (snd buf + py * wd + px) \<and>
        cell (fst buf) (snd buf + py * wd + px)
          \<le> max_d (cell (mips ! k) (snd (cellOf k (px, py)) * halved wd (Suc k) + fst (cellOf k (px, py)))))"

subsection \<open>Concrete instances for the evaluations\<close>

text \<open>
  An instance of the parameters: eight slices, minimum mip size eight, a power-of-two test
  that holds on 1, 2, 4, 8, ... and on 0 (the width of a buffer that was never sized, which
  line 57 tests on the first call), zeroed fresh memory, the identity as model transform,
  the viewport mapping of section 4.1 of the specification, the dot product of four
  components, the edge clip \<open>clipEdge\<close> of section 4.3, a facing test by the sign of the area, and
  gradients left at zero.
\<close>

function powerOfTwo :: "int \<Rightarrow> bool" where
  "powerOfTwo v = (if v \<le> 1 then v = 0 \<or> v = 1 else even v \<and> powerOfTwo (v div 2))"
  by pat_completeness auto
termination
  by (relation "measure nat") auto

definition zeroInts :: "int \<Rightarrow> int" where
  "zeroInts i = 0"

definition zeroDepths :: "int \<Rightarrow> DepthValue" where
  "zeroDepths i = \<lparr>min_d = 0, max_d = 0\<rparr>"

definition identityTransform :: "Matrix4 \<Rightarrow> Vector3 \<Rightarrow> Vector4" where
  "identityTransform m v = \<lparr>x = x v, y = y v, z = z v, w = 1\<rparr>"

definition viewportOf :: "OcclusionBuffer \<Rightarrow> Vector4 \<Rightarrow> Vector3" where
  "viewportOf s v =
     \<lparr>x = x v / w v * scaleX s + offsetX s,
      y = y v / w v * scaleY s + offsetY s,
      z = z v / w v * 16777216\<rparr>"

definition dotProduct :: "Vector4 \<Rightarrow> Vector4 \<Rightarrow> real" where
  "dotProduct a b = x a * x b + y a * y b + z a * z b + w a * w b"

definition checkFacing :: "Vector3 \<Rightarrow> Vector3 \<Rightarrow> Vector3 \<Rightarrow> bool" where
  "checkFacing v0 v1 v2 =
     ((x v0 - x v1) * (y v2 - y v1) - (y v0 - y v1) * (x v2 - x v1) \<le> 0)"

definition noGradients :: "Vector3 list \<Rightarrow> Gradients" where
  "noGradients pv = \<lparr>dInvZdX = 0, dInvZdY = 0, dInvZdXInt = 0\<rparr>"

definition samplePlatform :: platform where
  "samplePlatform =
     \<lparr>OCCLUSION_BUFFER_SLICES = 8, OCCLUSION_MIN_SIZE = 8, IsPowerOfTwo = powerOfTwo,
      uninitInt = zeroInts, uninitDepth = zeroDepths,
      ModelTransform = identityTransform, ViewportTransform = viewportOf,
      DotProduct = dotProduct, ClipEdge = clipEdge, CheckFacing = checkFacing,
      Calculate = noGradients\<rparr>"

definition idleTasks :: "RasterizeTrianglesTask list" where
  "idleTasks =
     [\<lparr>sliceIdx = 0, startY = 0, endY = 0\<rparr>, \<lparr>sliceIdx = 1, startY = 0, endY = 0\<rparr>,
      \<lparr>sliceIdx = 2, startY = 0, endY = 0\<rparr>, \<lparr>sliceIdx = 3, startY = 0, endY = 0\<rparr>,
      \<lparr>sliceIdx = 4, startY = 0, endY = 0\<rparr>, \<lparr>sliceIdx = 5, startY = 0, endY = 0\<rparr>,
      \<lparr>sliceIdx = 6, startY = 0, endY = 0\<rparr>, \<lparr>sliceIdx = 7, startY = 0, endY = 0\<rparr>]"

text \<open>
  The buffer as the constructor leaves it, and the buffer after \<^verbatim>\<open>SetSize(4, 4)\<close>
  on it.
\<close>

definition constructed :: OcclusionBuffer where
  "constructed =
     \<lparr>buffer = None, width = 0, height = 0, sliceHeight = 0,
      activeSlices = 0, rasterizeTrianglesTasks = idleTasks, mipBuffers = [],
      numTriangleBatches = 0, numReadyMipBuffers = 0, viewProj = [],
      scaleX = 0, scaleY = 0, offsetX = 0, offsetY = 0\<rparr>"

definition sized4 :: OcclusionBuffer where
  "sized4 =
     \<lparr>buffer = Some (newArray 26 zeroInts, 5), width = 4, height = 4,
      sliceHeight = 1, activeSlices = 4,
      rasterizeTrianglesTasks =
        [\<lparr>sliceIdx = 0, startY = 0, endY = 1\<rparr>, \<lparr>sliceIdx = 1, startY = 1, endY = 2\<rparr>,
         \<lparr>sliceIdx = 2, startY = 2, endY = 3\<rparr>, \<lparr>sliceIdx = 3, startY = 3, endY = 4\<rparr>,
         \<lparr>sliceIdx = 4, startY = 0, endY = 0\<rparr>, \<lparr>sliceIdx = 5, startY = 0, endY = 0\<rparr>,
         \<lparr>sliceIdx = 6, startY = 0, endY = 0\<rparr>, \<lparr>sliceIdx = 7, startY = 0, endY = 0\<rparr>],
      mipBuffers = [newArray 4 zeroDepths],
      numTriangleBatches = 0, numReadyMipBuffers = 0, viewProj = [],
      scaleX = 2, scaleY = - 2, offsetX = 5 / 2, offsetY = 5 / 2\<rparr>"



definition frontBox :: BoundingBox where
  "frontBox = \<lparr>min_b = \<lparr>x = - 1 / 2, y = - 1 / 2, z = 1 / 4\<rparr>,
               max_b = \<lparr>x = 1 / 2, y = 1 / 2, z = 1 / 2\<rparr>\<rparr>"

text \<open>
  A clipping pass about to start: one triangle in the first three places of the vertex
  array, its first vertex beyond the plane \<open>x = w\<close>, and the first flag set.
\<close>

definition planeXPos :: Vector4 where
  "planeXPos = \<lparr>x = - 1, y = 0, z = 0, w = 1\<rparr>"

definition clipVerts :: "Vector4 list" where
  "clipVerts =
     [\<lparr>x = 2, y = 0, z = 1 / 2, w = 1\<rparr>, \<lparr>x = 0, y = 0, z = 1 / 2, w = 1\<rparr>,
      \<lparr>x = 0, y = 1, z = 1 / 2, w = 1\<rparr>] @ replicate 189 \<lparr>x = 0, y = 0, z = 0, w = 0\<rparr>"

definition clipFlags :: "bool list" where
  "clipFlags = True # replicate 63 False"

text \<open>
  The buffer after \<^verbatim>\<open>SetSize(16, 16)\<close> on the constructed one (six slices of three rows,
  the last of one), a task with no triangle yet, and a triangle inside the frustum, facing
  the camera, whose vertices project to the rows 1, 1 and 3.
\<close>

definition sized16 :: OcclusionBuffer where
  "sized16 =
     \<lparr>buffer = Some (newArray 290 zeroInts, 17), width = 16, height = 16,
      sliceHeight = 3, activeSlices = 6,
      rasterizeTrianglesTasks =
        [\<lparr>sliceIdx = 0, startY = 0, endY = 3\<rparr>, \<lparr>sliceIdx = 1, startY = 3, endY = 6\<rparr>,
         \<lparr>sliceIdx = 2, startY = 6, endY = 9\<rparr>, \<lparr>sliceIdx = 3, startY = 9, endY = 12\<rparr>,
         \<lparr>sliceIdx = 4, startY = 12, endY = 15\<rparr>, \<lparr>sliceIdx = 5, startY = 15, endY = 16\<rparr>,
         \<lparr>sliceIdx = 6, startY = 0, endY = 0\<rparr>, \<lparr>sliceIdx = 7, startY = 0, endY = 0\<rparr>],
      mipBuffers = [newArray 64 zeroDepths],
      numTriangleBatches = 0, numReadyMipBuffers = 0, viewProj = [],
      scaleX = 8, scaleY = - 8, offsetX = 17 / 2, offsetY = 17 / 2\<rparr>"

definition emptyTask :: GenerateTrianglesTask where
  "emptyTask = \<lparr>triangles = [], triangleIndices = [[], [], [], [], [], [], [], []]\<rparr>"

definition insideTriangle :: "Vector4 list" where
  "insideTriangle =
     [\<lparr>x = - 1 / 2, y = 7 / 8, z = 1 / 2, w = 1\<rparr>, \<lparr>x = 1 / 2, y = 7 / 8, z = 1 / 2, w = 1\<rparr>,
      \<lparr>x = 0, y = 5 / 8, z = 1 / 2, w = 1\<rparr>]"

text \<open>
  The buffer after \<^verbatim>\<open>SetSize(1, 1)\<close> on the constructed one; the same after a frame
  with one batch that left the depth \<open>4194304\<close> (a quarter of the depth range) in its
  only pixel; and a box behind that depth.
\<close>

definition sized1 :: OcclusionBuffer where
  "sized1 =
     \<lparr>buffer = Some (newArray 5 zeroInts, 2), width = 1, height = 1,
      sliceHeight = 1, activeSlices = 1,
      rasterizeTrianglesTasks =
        [\<lparr>sliceIdx = 0, startY = 0, endY = 1\<rparr>, \<lparr>sliceIdx = 1, startY = 0, endY = 0\<rparr>,
         \<lparr>sliceIdx = 2, startY = 0, endY = 0\<rparr>, \<lparr>sliceIdx = 3, startY = 0, endY = 0\<rparr>,
         \<lparr>sliceIdx = 4, startY = 0, endY = 0\<rparr>, \<lparr>sliceIdx = 5, startY = 0, endY = 0\<rparr>,
         \<lparr>sliceIdx = 6, startY = 0, endY = 0\<rparr>, \<lparr>sliceIdx = 7, startY = 0, endY = 0\<rparr>],
      mipBuffers = [newArray 1 zeroDepths],
      numTriangleBatches = 0, numReadyMipBuffers = 0, viewProj = [],
      scaleX = 1 / 2, scaleY = - 1 / 2, offsetX = 1, offsetY = 1\<rparr>"

definition onePixel :: "int \<Rightarrow> int" where
  "onePixel i = (if i = 2 then 4194304 else 0)"

definition rastered1 :: OcclusionBuffer where
  "rastered1 = sized1\<lparr>buffer := Some (newArray 5 onePixel, 2), numTriangleBatches := 1\<rparr>"

definition farBox :: BoundingBox where
  "farBox = \<lparr>min_b = \<lparr>x = - 1 / 2, y = - 1 / 2, z = 1 / 2\<rparr>,
             max_b = \<lparr>x = 1 / 2, y = 1 / 2, z = 3 / 4\<rparr>\<rparr>"

text \<open>The same buffer once the hierarchy is built: one level of one cell.\<close>

definition builtCell :: "int \<Rightarrow> DepthValue" where
  "builtCell i = (if i = 0 then \<lparr>min_d = 0, max_d = 4194304\<rparr> else \<lparr>min_d = 0, max_d = 0\<rparr>)"

definition built1 :: OcclusionBuffer where
  "built1 = rastered1\<lparr>mipBuffers := [\<lparr>count = 1, cell = builtCell\<rparr>], numReadyMipBuffers := 1\<rparr>"

text \<open>
  A 3 x 3 buffer with two levels (2 x 2 cells, then one cell), as the loop of \<^verbatim>\<open>SetSize\<close>
  sizes them when it runs twice. Its pixels hold 1000, 2000, ..., 9000, row by row, the
  border holds 0.
\<close>

definition ninePixels :: "int \<Rightarrow> int" where
  "ninePixels i = (if 4 \<le> i \<and> i < 13 then (i - 3) * 1000 else 0)"

definition rastered3 :: OcclusionBuffer where
  "rastered3 = sized1\<lparr>buffer := Some (newArray 17 ninePixels, 4), width := 3, height := 3,
                       mipBuffers := [newArray 4 zeroDepths, newArray 1 zeroDepths],
                       numTriangleBatches := 1\<rparr>"

section \<open>Properties\<close>

subsection \<open>SetSize\<close>

declare SetSize_slices.simps [simp del]
declare halvings_until.simps [simp del]
declare powerOfTwo.simps [simp del]

lemma half_up_div: "half_up v = (v + 1) div 2"
  unfolding half_up_def by linarith

lemma half_up_pos: "1 \<le> v \<Longrightarrow> 1 \<le> half_up v"
  by (simp add: half_up_div)

lemma half_up_less: "2 \<le> v \<Longrightarrow> half_up v < v"
  by (simp add: half_up_div)

lemma half_up_le: "1 \<le> v \<Longrightarrow> half_up v \<le> v"
  by (simp add: half_up_div)

lemma halved_shift: "halved (half_up v) n = halved v (Suc n)"
  by (induction n) simp_all

lemma slice_height_covers:
  assumes "0 < (n::int)"
  shows "h < n * (h div n + 1)"
proof -
  have "h = n * (h div n) + h mod n" by simp
  moreover have "h mod n < n" using assms by simp
  ultimately have "h < n * (h div n) + n" by linarith
  then show ?thesis by (simp add: algebra_simps)
qed

lemma SetSize_slices_inv:
  assumes "0 \<le> i" and "length (rasterizeTrianglesTasks s) = nat (OCCLUSION_BUFFER_SLICES env)"
  shows "let s' = SetSize_slices env s i; k = activeSlices s' - activeSlices s in
          0 \<le> k \<and> (k = 0 \<or> i + k \<le> OCCLUSION_BUFFER_SLICES env) \<and>
          (OCCLUSION_BUFFER_SLICES env \<le> i + k \<or> height s \<le> (i + k) * sliceHeight s) \<and>
          (\<forall>j. i \<le> j \<and> j < i + k \<longrightarrow>
                j * sliceHeight s < height s \<and>
                startY (rasterizeTrianglesTasks s' ! nat j) = j * sliceHeight s \<and>
                endY (rasterizeTrianglesTasks s' ! nat j) = min ((j + 1) * sliceHeight s) (height s)) \<and>
          (\<forall>m. m < nat i \<longrightarrow> rasterizeTrianglesTasks s' ! m = rasterizeTrianglesTasks s ! m) \<and>
          length (rasterizeTrianglesTasks s') = length (rasterizeTrianglesTasks s) \<and>
          sliceHeight s' = sliceHeight s \<and> height s' = height s \<and> width s' = width s"
  using assms
proof (induction env s i rule: SetSize_slices.induct)
  case (1 env s i)
  show ?case
  proof (cases "i < OCCLUSION_BUFFER_SLICES env \<and> i * sliceHeight s < height s")
    case False
    then have "SetSize_slices env s i = s"
      by (subst SetSize_slices.simps) auto
    with False show ?thesis by (auto simp: Let_def)
  next
    case True
    define t where "t = s\<lparr>rasterizeTrianglesTasks :=
                  (rasterizeTrianglesTasks s)[nat i :=
                     (rasterizeTrianglesTasks s ! nat i)
                       \<lparr>startY := i * sliceHeight s,
                        endY := min ((i + 1) * sliceHeight s) (height s)\<rparr>],
                activeSlices := activeSlices s + 1\<rparr>"
    have eq: "SetSize_slices env s i = SetSize_slices env t (i + 1)"
      using True by (subst SetSize_slices.simps) (simp add: t_def)
    have len: "length (rasterizeTrianglesTasks t) = nat (OCCLUSION_BUFFER_SLICES env)"
      using "1.prems" by (simp add: t_def)
    have IH: "let s' = SetSize_slices env t (i + 1); k = activeSlices s' - activeSlices t in
          0 \<le> k \<and> (k = 0 \<or> i + 1 + k \<le> OCCLUSION_BUFFER_SLICES env) \<and>
          (OCCLUSION_BUFFER_SLICES env \<le> i + 1 + k \<or> height t \<le> (i + 1 + k) * sliceHeight t) \<and>
          (\<forall>j. i + 1 \<le> j \<and> j < i + 1 + k \<longrightarrow>
                j * sliceHeight t < height t \<and>
                startY (rasterizeTrianglesTasks s' ! nat j) = j * sliceHeight t \<and>
                endY (rasterizeTrianglesTasks s' ! nat j) = min ((j + 1) * sliceHeight t) (height t)) \<and>
          (\<forall>m. m < nat (i + 1) \<longrightarrow> rasterizeTrianglesTasks s' ! m = rasterizeTrianglesTasks t ! m) \<and>
          length (rasterizeTrianglesTasks s') = length (rasterizeTrianglesTasks t) \<and>
          sliceHeight s' = sliceHeight t \<and> height s' = height t \<and> width s' = width t"
      using "1.IH" True "1.prems" unfolding t_def by simp
    have ti: "rasterizeTrianglesTasks t ! nat i = (rasterizeTrianglesTasks s ! nat i)
                       \<lparr>startY := i * sliceHeight s,
                        endY := min ((i + 1) * sliceHeight s) (height s)\<rparr>"
      using True "1.prems" by (simp add: t_def)
    have tm: "\<And>m. m < nat i \<Longrightarrow> rasterizeTrianglesTasks t ! m = rasterizeTrianglesTasks s ! m"
      by (simp add: t_def)
    have tf: "sliceHeight t = sliceHeight s" "height t = height s" "activeSlices t = activeSlices s + 1"
      "length (rasterizeTrianglesTasks t) = length (rasterizeTrianglesTasks s)" "width t = width s"
      by (simp_all add: t_def)
    define s' where "s' = SetSize_slices env t (i + 1)"
    define k where "k = activeSlices s' - activeSlices t"
    note IH' = IH[unfolded Let_def, folded s'_def, folded k_def, unfolded tf]
    have ki: "nat i < nat (i + 1)" using "1.prems" by simp
    have A: "rasterizeTrianglesTasks s' ! nat i = rasterizeTrianglesTasks t ! nat i"
      using IH' ki by blast
    have B: "\<And>j. i \<le> j \<Longrightarrow> j < i + (k + 1) \<Longrightarrow> j * sliceHeight s < height s \<and>
                startY (rasterizeTrianglesTasks s' ! nat j) = j * sliceHeight s \<and>
                endY (rasterizeTrianglesTasks s' ! nat j) = min ((j + 1) * sliceHeight s) (height s)"
    proof -
      fix j assume j: "i \<le> j" "j < i + (k + 1)"
      show "j * sliceHeight s < height s \<and>
                startY (rasterizeTrianglesTasks s' ! nat j) = j * sliceHeight s \<and>
                endY (rasterizeTrianglesTasks s' ! nat j) = min ((j + 1) * sliceHeight s) (height s)"
      proof (cases "j = i")
        case True
        then show ?thesis using A ti \<open>i < OCCLUSION_BUFFER_SLICES env \<and> i * sliceHeight s < height s\<close> by simp
      next
        case False
        then have "i + 1 \<le> j \<and> j < i + 1 + k" using j by simp
        then show ?thesis using IH' by blast
      qed
    qed
    have C: "\<And>m. m < nat i \<Longrightarrow> rasterizeTrianglesTasks s' ! m = rasterizeTrianglesTasks s ! m"
    proof -
      fix m assume "m < nat i"
      then have "m < nat (i + 1)" by simp
      then have "rasterizeTrianglesTasks s' ! m = rasterizeTrianglesTasks t ! m" using IH' by blast
      then show "rasterizeTrianglesTasks s' ! m = rasterizeTrianglesTasks s ! m" using tm \<open>m < nat i\<close> by simp
    qed
    have D: "activeSlices s' - activeSlices s = k + 1"
      using tf by (simp add: k_def)
    have E: "0 \<le> k" "k = 0 \<or> i + 1 + k \<le> OCCLUSION_BUFFER_SLICES env"
        "OCCLUSION_BUFFER_SLICES env \<le> i + 1 + k \<or> height s \<le> (i + 1 + k) * sliceHeight s"
        "length (rasterizeTrianglesTasks s') = length (rasterizeTrianglesTasks s)"
        "sliceHeight s' = sliceHeight s" "height s' = height s" "width s' = width s"
      using IH' by auto
    have F: "i + (k + 1) \<le> OCCLUSION_BUFFER_SLICES env"
      using E(1,2) True by auto
    have G: "OCCLUSION_BUFFER_SLICES env \<le> i + (k + 1) \<or> height s \<le> (i + (k + 1)) * sliceHeight s"
      using E(3) by (simp add: ac_simps)
    have H: "0 \<le> k + 1" using E(1) by simp
    show ?thesis
      unfolding eq Let_def s'_def[symmetric] D
      using B C E(4,5,6,7) F G H by blast
  qed
qed


lemma SetSize_mips_levels:
  assumes "1 \<le> OCCLUSION_MIN_SIZE env" and "1 \<le> wd" and "1 \<le> ht"
  shows "SetSize_mips env wd ht mips =
           Some (mips @ map (\<lambda>n. newArray (halved wd (Suc n) * halved ht (Suc n)) (uninitDepth env))
                            [0..<max 1 (halvings_until (OCCLUSION_MIN_SIZE env) wd ht)])"
  using assms(2,3)
proof (induction "nat (max wd ht)" arbitrary: wd ht mips rule: less_induct)
  case less
  let ?m = "OCCLUSION_MIN_SIZE env"
  let ?a = "newArray (half_up wd * half_up ht) (uninitDepth env)"
  have pos: "1 \<le> half_up wd" "1 \<le> half_up ht"
    using less.prems by (simp_all add: half_up_pos)
  show ?case
  proof (cases "half_up wd \<le> ?m \<and> half_up ht \<le> ?m")
    case True
    then have r: "SetSize_mips env wd ht mips = Some (mips @ [?a])"
      by (subst SetSize_mips.simps) (simp add: half_up_div)
    have "halvings_until ?m (half_up wd) (half_up ht) = 0"
      using True by (subst halvings_until.simps) simp
    then have "halvings_until ?m wd ht \<le> 1"
      by (subst halvings_until.simps) simp
    then have "max 1 (halvings_until ?m wd ht) = 1" by simp
    then show ?thesis using r by simp
  next
    case False
    have step: "SetSize_mips env wd ht mips = SetSize_mips env (half_up wd) (half_up ht) (mips @ [?a])"
      using False by (subst SetSize_mips.simps) (auto simp add: half_up_div)
    have notyet: "\<not> (wd \<le> ?m \<and> ht \<le> ?m)"
      using False half_up_le[of wd] half_up_le[of ht] less.prems by auto
    have big: "2 \<le> wd \<or> 2 \<le> ht"
      using notyet assms(1) less.prems by auto
    have dec: "nat (max (half_up wd) (half_up ht)) < nat (max wd ht)"
      using big less.prems by (auto simp: max_def half_up_div)
    let ?k = "halvings_until ?m (half_up wd) (half_up ht)"
    have k1: "1 \<le> ?k"
      using False assms(1) pos by (subst halvings_until.simps) auto
    have hu: "halvings_until ?m wd ht = Suc ?k"
      using notyet assms(1) less.prems by (subst halvings_until.simps) auto
    have IH: "SetSize_mips env (half_up wd) (half_up ht) (mips @ [?a]) =
         Some ((mips @ [?a]) @
           map (\<lambda>n. newArray (halved (half_up wd) (Suc n) * halved (half_up ht) (Suc n)) (uninitDepth env))
             [0..<max 1 ?k])"
      by (rule less.hyps[OF dec pos])
    have mk: "max 1 ?k = ?k" using k1 by simp
    have lst: "[?a] @ map (\<lambda>n. newArray (halved (half_up wd) (Suc n) * halved (half_up ht) (Suc n)) (uninitDepth env)) [0..<?k]
         = map (\<lambda>n. newArray (halved wd (Suc n) * halved ht (Suc n)) (uninitDepth env)) [0..<Suc ?k]"
    proof -
      have "[0..<Suc ?k] = 0 # map Suc [0..<?k]"
        by (simp add: upt_conv_Cons map_Suc_upt del: upt_Suc)
      then show ?thesis
        by (simp add: halved_shift comp_def del: upt_Suc halved.simps(2))
           (simp add: halved_shift[symmetric])
    qed
    show ?thesis
      unfolding step IH mk hu using lst k1 by (simp del: upt_Suc halved.simps)
  qed
qed



lemma SetSize_allocating:
  assumes "SetSize env s newWidth newHeight = Some (True, s')"
    and "\<not> (newWidth = width s \<and> newHeight = (if odd (height s) then height s + 1 else height s))"
  shows "\<exists>s2 mips. 0 < newWidth \<and> 0 < newHeight \<and>
    sliceHeight s2 = newHeight div OCCLUSION_BUFFER_SLICES env + 1 \<and>
    height s2 = newHeight \<and> width s2 = newWidth \<and> activeSlices s2 = 0 \<and>
    rasterizeTrianglesTasks s2 = rasterizeTrianglesTasks s \<and>
    SetSize_mips env newWidth newHeight [] = Some mips \<and>
    s' = CalculateViewport
            ((SetSize_slices env s2 0)
               \<lparr>buffer := Some (newArray (width (SetSize_slices env s2 0) *
                                            (height (SetSize_slices env s2 0) + 2) + 2) (uninitInt env),
                                width (SetSize_slices env s2 0) + 1),
                mipBuffers := mips\<rparr>)"
proof -
  define s1 where "s1 = (if odd (height s) then s\<lparr>height := height s + 1\<rparr> else s)"
  define s2 where "s2 = s1\<lparr>width := newWidth, height := newHeight,
               sliceHeight := newHeight div OCCLUSION_BUFFER_SLICES env + 1, activeSlices := 0\<rparr>"
  define sl where "sl = SetSize_slices env s2 0"
  have ne: "\<not> (newWidth = width s1 \<and> newHeight = height s1)"
    using assms(2) by (auto simp: s1_def split: if_splits)
  have t1: "rasterizeTrianglesTasks s1 = rasterizeTrianglesTasks s"
    by (simp add: s1_def)
  have eq: "SetSize env s newWidth newHeight =
      (if newWidth \<le> 0 \<or> newHeight \<le> 0 then Some (False, s1)
       else if \<not> IsPowerOfTwo env (width s1) then Some (False, s1)
       else case SetSize_mips env newWidth newHeight [] of
             None \<Rightarrow> None
           | Some mips \<Rightarrow> Some (True, CalculateViewport
               (sl\<lparr>buffer := Some (newArray (width sl * (height sl + 2) + 2) (uninitInt env), width sl + 1),
                   mipBuffers := mips\<rparr>)))"
  proof -
    have ne': "(newWidth = width s1 \<and> newHeight = height s1) = False"
      using ne by simp
    show ?thesis
      unfolding SetSize_def Let_def s1_def[symmetric] s2_def[symmetric] sl_def[symmetric]
      by (simp add: ne' cong: option.case_cong)
  qed
  from assms(1) have pos: "0 < newWidth" "0 < newHeight"
    unfolding eq by (simp_all split: if_splits)
  from assms(1) obtain mips where m: "SetSize_mips env newWidth newHeight [] = Some mips"
    and r: "s' = CalculateViewport
               (sl\<lparr>buffer := Some (newArray (width sl * (height sl + 2) + 2) (uninitInt env), width sl + 1),
                   mipBuffers := mips\<rparr>)"
    unfolding eq by (auto split: if_splits option.splits)
  have f2: "sliceHeight s2 = newHeight div OCCLUSION_BUFFER_SLICES env + 1"
    "height s2 = newHeight" "width s2 = newWidth" "activeSlices s2 = 0"
    "rasterizeTrianglesTasks s2 = rasterizeTrianglesTasks s"
    using t1 by (simp_all add: s2_def)
  show ?thesis
    using pos m r f2 unfolding sl_def by blast
qed

text \<open>
  Claim C5, as the code has it. After a \<^verbatim>\<open>SetSize(w, h)\<close> that succeeds by resizing (not
  by the same-size return of line 50), the slice height is \<open>h div SLICES + 1\<close>, the
  quotient rounded down; between one and \<open>SLICES\<close> slices are active; active slice \<open>i\<close>
  is the non-empty row range from \<open>i * sliceHeight\<close> to
  \<open>min ((i + 1) * sliceHeight) h\<close> (exclusive); each slice ends on the row where the next
  one starts, so adjacent slices share no row; and the last active slice ends at \<open>h\<close>.
\<close>

theorem SetSize_slice_layout:
  assumes "0 < OCCLUSION_BUFFER_SLICES env"
    and "length (rasterizeTrianglesTasks s) = nat (OCCLUSION_BUFFER_SLICES env)"
    and "SetSize env s newWidth newHeight = Some (True, s')"
    and "\<not> (newWidth = width s \<and> newHeight = (if odd (height s) then height s + 1 else height s))"
  shows "sliceHeight s' = newHeight div OCCLUSION_BUFFER_SLICES env + 1 \<and>
         1 \<le> activeSlices s' \<and> activeSlices s' \<le> OCCLUSION_BUFFER_SLICES env \<and>
         (\<forall>i. 0 \<le> i \<and> i < activeSlices s' \<longrightarrow>
              startY (rasterizeTrianglesTasks s' ! nat i) = i * sliceHeight s' \<and>
              endY (rasterizeTrianglesTasks s' ! nat i) = min ((i + 1) * sliceHeight s') newHeight \<and>
              startY (rasterizeTrianglesTasks s' ! nat i) < endY (rasterizeTrianglesTasks s' ! nat i)) \<and>
         (\<forall>i. 0 \<le> i \<and> i + 1 < activeSlices s' \<longrightarrow>
              endY (rasterizeTrianglesTasks s' ! nat i) = startY (rasterizeTrianglesTasks s' ! nat (i + 1))) \<and>
         endY (rasterizeTrianglesTasks s' ! nat (activeSlices s' - 1)) = newHeight"
proof -
  let ?N = "OCCLUSION_BUFFER_SLICES env"
  let ?sh = "newHeight div ?N + 1"
  from SetSize_allocating[OF assms(3,4)] obtain s2 mips where
    pos: "0 < newWidth" "0 < newHeight" and
    f2': "sliceHeight s2 = ?sh" "height s2 = newHeight" "activeSlices s2 = 0"
      "rasterizeTrianglesTasks s2 = rasterizeTrianglesTasks s" and
    s': "s' = CalculateViewport
            ((SetSize_slices env s2 0)
               \<lparr>buffer := Some (newArray (width (SetSize_slices env s2 0) *
                                            (height (SetSize_slices env s2 0) + 2) + 2) (uninitInt env),
                                width (SetSize_slices env s2 0) + 1),
                mipBuffers := mips\<rparr>)"
    by blast
  define sl where "sl = SetSize_slices env s2 0"
  define k where "k = activeSlices sl"
  have f2: "sliceHeight s2 = ?sh" "height s2 = newHeight" "activeSlices s2 = 0"
    "length (rasterizeTrianglesTasks s2) = nat ?N"
    using assms(2) f2' by simp_all
  have fs: "sliceHeight s' = sliceHeight sl" "activeSlices s' = k"
    "rasterizeTrianglesTasks s' = rasterizeTrianglesTasks sl"
    by (simp_all add: s' sl_def k_def CalculateViewport_def)
  have inv: "0 \<le> k \<and> (k = 0 \<or> 0 + k \<le> ?N) \<and>
          (?N \<le> 0 + k \<or> newHeight \<le> (0 + k) * ?sh) \<and>
          (\<forall>j. 0 \<le> j \<and> j < 0 + k \<longrightarrow>
                j * ?sh < newHeight \<and>
                startY (rasterizeTrianglesTasks sl ! nat j) = j * ?sh \<and>
                endY (rasterizeTrianglesTasks sl ! nat j) = min ((j + 1) * ?sh) newHeight) \<and>
          sliceHeight sl = ?sh"
    using SetSize_slices_inv[of 0 s2 env] f2
    unfolding Let_def sl_def[symmetric] k_def by simp
  have shpos: "1 \<le> ?sh"
    using pos assms(1) by (simp add: pos_imp_zdiv_nonneg_iff)
  have cover: "newHeight < ?N * ?sh"
    by (rule slice_height_covers[OF assms(1)])
  have kN: "k \<le> ?N" using inv assms(1) by auto
  have hk: "newHeight \<le> k * ?sh"
  proof (cases "?N \<le> k")
    case True
    then have "k = ?N" using kN by simp
    then show ?thesis using cover by simp
  next
    case False
    then show ?thesis using inv by simp
  qed
  have k1: "1 \<le> k"
  proof (rule ccontr)
    assume "\<not> 1 \<le> k"
    then have "k = 0" using inv by simp
    then show False using hk pos by simp
  qed
  have sl: "\<And>j. 0 \<le> j \<Longrightarrow> j < k \<Longrightarrow> j * ?sh < newHeight \<and>
                startY (rasterizeTrianglesTasks sl ! nat j) = j * ?sh \<and>
                endY (rasterizeTrianglesTasks sl ! nat j) = min ((j + 1) * ?sh) newHeight"
    using inv by simp
  have A: "\<forall>i. 0 \<le> i \<and> i < k \<longrightarrow>
              startY (rasterizeTrianglesTasks sl ! nat i) = i * ?sh \<and>
              endY (rasterizeTrianglesTasks sl ! nat i) = min ((i + 1) * ?sh) newHeight \<and>
              startY (rasterizeTrianglesTasks sl ! nat i) < endY (rasterizeTrianglesTasks sl ! nat i)"
  proof (intro allI impI)
    fix i assume i: "0 \<le> i \<and> i < k"
    have "i * ?sh < (i + 1) * ?sh" using shpos by (simp add: algebra_simps)
    then have "i * ?sh < min ((i + 1) * ?sh) newHeight" using sl[of i] i by simp
    then show "startY (rasterizeTrianglesTasks sl ! nat i) = i * ?sh \<and>
              endY (rasterizeTrianglesTasks sl ! nat i) = min ((i + 1) * ?sh) newHeight \<and>
              startY (rasterizeTrianglesTasks sl ! nat i) < endY (rasterizeTrianglesTasks sl ! nat i)"
      using sl[of i] i by simp
  qed
  have B: "\<forall>i. 0 \<le> i \<and> i + 1 < k \<longrightarrow>
              endY (rasterizeTrianglesTasks sl ! nat i) = startY (rasterizeTrianglesTasks sl ! nat (i + 1))"
  proof (intro allI impI)
    fix i assume i: "0 \<le> i \<and> i + 1 < k"
    have "(i + 1) * ?sh < newHeight" using sl[of "i + 1"] i by simp
    then show "endY (rasterizeTrianglesTasks sl ! nat i) = startY (rasterizeTrianglesTasks sl ! nat (i + 1))"
      using sl[of i] sl[of "i + 1"] i by simp
  qed
  have C: "endY (rasterizeTrianglesTasks sl ! nat (k - 1)) = newHeight"
    using sl[of "k - 1"] k1 hk by simp
  have sh: "sliceHeight sl = ?sh" using inv by simp
  show ?thesis
    unfolding fs sh using kN k1 A B C by blast
qed

lemma SetSize_eval_16_17:
  "SetSize samplePlatform sized4 16 17 \<noteq> None \<and> fst (the (SetSize samplePlatform sized4 16 17))"
  by (simp add: SetSize_def samplePlatform_def sized4_def constructed_def idleTasks_def
      SetSize_slices.simps SetSize_mips.simps powerOfTwo.simps Let_def)

lemma Some_True_the: "r \<noteq> None \<and> fst (the r) \<Longrightarrow> r = Some (True, snd (the r))"
  by (cases r) auto

text \<open>
  The hypotheses hold for \<^verbatim>\<open>SetSize(16, 17)\<close> on the 4 x 4 buffer.
\<close>

theorem SetSize_slice_layout_witness:
  "0 < OCCLUSION_BUFFER_SLICES samplePlatform \<and>
   length (rasterizeTrianglesTasks sized4) = nat (OCCLUSION_BUFFER_SLICES samplePlatform) \<and>
   SetSize samplePlatform sized4 16 17 = Some (True, snd (the (SetSize samplePlatform sized4 16 17))) \<and>
   \<not> (16 = width sized4 \<and> 17 = (if odd (height sized4) then height sized4 + 1 else height sized4)) \<and>
   sliceHeight (snd (the (SetSize samplePlatform sized4 16 17))) = 3 \<and>
   1 \<le> activeSlices (snd (the (SetSize samplePlatform sized4 16 17)))"
proof -
  have h1: "0 < OCCLUSION_BUFFER_SLICES samplePlatform"
    by (simp add: samplePlatform_def)
  have h2: "length (rasterizeTrianglesTasks sized4) = nat (OCCLUSION_BUFFER_SLICES samplePlatform)"
    by (simp add: samplePlatform_def sized4_def)
  have h3: "SetSize samplePlatform sized4 16 17 = Some (True, snd (the (SetSize samplePlatform sized4 16 17)))"
    by (rule Some_True_the[OF SetSize_eval_16_17])
  have h4: "\<not> (16 = width sized4 \<and> 17 = (if odd (height sized4) then height sized4 + 1 else height sized4))"
    by (simp add: sized4_def)
  have "17 div OCCLUSION_BUFFER_SLICES samplePlatform + 1 = (3::int)"
    by (simp add: samplePlatform_def)
  then show ?thesis
    using h1 h2 h3 h4 SetSize_slice_layout[OF h1 h2 h3 h4] by simp
qed

text \<open>
  Claim C5 as stated fails at \<^verbatim>\<open>SetSize(16, 17)\<close> with eight slices: the slice height is 3,
  not \<open>ceil(17/8) + 1 = 4\<close>, and slices 0 and 1 (rows 0-2 and 3-5) have no row in common.
\<close>

theorem SetSize_slices_counterexample:
  "fst (the (SetSize samplePlatform sized4 16 17)) \<and>
   sliceHeight (snd (the (SetSize samplePlatform sized4 16 17))) \<noteq> \<lceil>17 / 8 :: real\<rceil> + 1 \<and>
   {startY (rasterizeTrianglesTasks (snd (the (SetSize samplePlatform sized4 16 17))) ! 0) ..<
    endY (rasterizeTrianglesTasks (snd (the (SetSize samplePlatform sized4 16 17))) ! 0)} \<inter>
   {startY (rasterizeTrianglesTasks (snd (the (SetSize samplePlatform sized4 16 17))) ! 1) ..<
    endY (rasterizeTrianglesTasks (snd (the (SetSize samplePlatform sized4 16 17))) ! 1)} = {}"
  by (simp add: SetSize_def samplePlatform_def sized4_def constructed_def idleTasks_def
      SetSize_slices.simps SetSize_mips.simps powerOfTwo.simps Let_def CalculateViewport_def)


text \<open>
  The 4 x 4 buffer is what \<^verbatim>\<open>SetSize(4, 4)\<close> makes of the constructed one.
\<close>

lemma sized4_reached: "SetSize samplePlatform constructed 4 4 = Some (True, sized4)"
  by (simp add: SetSize_def samplePlatform_def sized4_def constructed_def idleTasks_def
      SetSize_slices.simps SetSize_mips.simps powerOfTwo.simps Let_def CalculateViewport_def)

lemma SetSize_slices_size:
  "width (SetSize_slices env s i) = width s \<and> height (SetSize_slices env s i) = height s"
proof (induction env s i rule: SetSize_slices.induct)
  case (1 env s i)
  show ?case
  proof (cases "i < OCCLUSION_BUFFER_SLICES env \<and> i * sliceHeight s < height s")
    case True
    then show ?thesis
      using "1.IH" by (subst (1 2) SetSize_slices.simps) simp
  next
    case False
    then show ?thesis
      by (subst (1 2) SetSize_slices.simps) auto
  qed
qed

text \<open>
  Claim C8, as the code has it. After a \<^verbatim>\<open>SetSize(w, h)\<close> that succeeds by resizing, the
  buffer stores \<open>w\<close> and \<open>h\<close>, the mip chain has as many levels as halvings are needed
  until both sizes are at most the minimum, but never fewer than one, and level \<open>n\<close> is
  allocated with \<open>ceil(pw/2) * ceil(ph/2)\<close> cells, \<open>pw\<close> and \<open>ph\<close> being the sizes of
  level \<open>n - 1\<close> (of the full buffer for level 0).
\<close>

theorem SetSize_mip_chain:
  assumes "1 \<le> OCCLUSION_MIN_SIZE env"
    and "SetSize env s newWidth newHeight = Some (True, s')"
    and "\<not> (newWidth = width s \<and> newHeight = (if odd (height s) then height s + 1 else height s))"
  shows "width s' = newWidth \<and> height s' = newHeight \<and>
         length (mipBuffers s') = max 1 (halvings_until (OCCLUSION_MIN_SIZE env) newWidth newHeight) \<and>
         (\<forall>n < length (mipBuffers s').
            count (mipBuffers s' ! n) = half_up (halved newWidth n) * half_up (halved newHeight n))"
proof -
  from SetSize_allocating[OF assms(2,3)] obtain s2 mips where
    pos: "0 < newWidth" "0 < newHeight" and
    f2: "height s2 = newHeight" "width s2 = newWidth" and
    m: "SetSize_mips env newWidth newHeight [] = Some mips" and
    s': "s' = CalculateViewport
            ((SetSize_slices env s2 0)
               \<lparr>buffer := Some (newArray (width (SetSize_slices env s2 0) *
                                            (height (SetSize_slices env s2 0) + 2) + 2) (uninitInt env),
                                width (SetSize_slices env s2 0) + 1),
                mipBuffers := mips\<rparr>)"
    by blast
  let ?L = "max 1 (halvings_until (OCCLUSION_MIN_SIZE env) newWidth newHeight)"
  have "SetSize_mips env newWidth newHeight [] =
          Some ([] @ map (\<lambda>n. newArray (halved newWidth (Suc n) * halved newHeight (Suc n)) (uninitDepth env))
                            [0..<?L])"
    using pos by (intro SetSize_mips_levels[OF assms(1)]) simp_all
  with m have mips: "mips = map (\<lambda>n. newArray (halved newWidth (Suc n) * halved newHeight (Suc n)) (uninitDepth env)) [0..<?L]"
    by simp
  have fs: "width s' = newWidth" "height s' = newHeight" "mipBuffers s' = mips"
    using f2 SetSize_slices_size[of env s2 0] by (simp_all add: s' CalculateViewport_def)
  have len: "length mips = ?L" by (simp add: mips)
  have cnt: "\<forall>n < length mips. count (mips ! n) = half_up (halved newWidth n) * half_up (halved newHeight n)"
    unfolding len by (simp add: mips newArray_def del: upt_Suc)
  show ?thesis
    unfolding fs using len cnt by simp
qed

text \<open>
  The hypotheses hold for \<^verbatim>\<open>SetSize(64, 17)\<close> on the 4 x 4 buffer: three levels, the last
  of 8 x 3 cells.
\<close>

theorem SetSize_mip_chain_witness:
  "1 \<le> OCCLUSION_MIN_SIZE samplePlatform \<and>
   SetSize samplePlatform sized4 64 17 = Some (True, snd (the (SetSize samplePlatform sized4 64 17))) \<and>
   \<not> (64 = width sized4 \<and> 17 = (if odd (height sized4) then height sized4 + 1 else height sized4)) \<and>
   length (mipBuffers (snd (the (SetSize samplePlatform sized4 64 17)))) = 3 \<and>
   count (mipBuffers (snd (the (SetSize samplePlatform sized4 64 17))) ! 2) = 8 * 3"
proof -
  have h1: "1 \<le> OCCLUSION_MIN_SIZE samplePlatform"
    by (simp add: samplePlatform_def)
  have ev: "SetSize samplePlatform sized4 64 17 \<noteq> None \<and> fst (the (SetSize samplePlatform sized4 64 17))"
    by (simp add: SetSize_def samplePlatform_def sized4_def
      SetSize_slices.simps SetSize_mips.simps powerOfTwo.simps Let_def)
  have h2: "SetSize samplePlatform sized4 64 17 = Some (True, snd (the (SetSize samplePlatform sized4 64 17)))"
    by (rule Some_True_the[OF ev])
  have h3: "\<not> (64 = width sized4 \<and> 17 = (if odd (height sized4) then height sized4 + 1 else height sized4))"
    by (simp add: sized4_def)
  have hu: "halvings_until (OCCLUSION_MIN_SIZE samplePlatform) 64 17 = 3"
    by (simp add: halvings_until.simps samplePlatform_def half_up_div)
  have hv: "half_up (halved 64 2) * half_up (halved 17 2) = 8 * 3"
    by (simp add: half_up_div numeral_2_eq_2)
  from SetSize_mip_chain[OF h1 h2 h3] hu hv show ?thesis
    using h1 h2 h3 by simp
qed

text \<open>
  Claim C8 as stated fails at \<^verbatim>\<open>SetSize(8, 8)\<close> with minimum size 8: no halving is needed
  for 8 x 8 to be within the minimum, and the chain has one level.
\<close>

theorem SetSize_mip_chain_counterexample:
  "SetSize samplePlatform sized4 8 8 \<noteq> None \<and> fst (the (SetSize samplePlatform sized4 8 8)) \<and>
   length (mipBuffers (snd (the (SetSize samplePlatform sized4 8 8)))) = 1 \<and>
   halvings_until (OCCLUSION_MIN_SIZE samplePlatform) 8 8 = 0"
  by (simp add: SetSize_def samplePlatform_def sized4_def halvings_until.simps
      SetSize_slices.simps SetSize_mips.simps powerOfTwo.simps Let_def CalculateViewport_def)

text \<open>
  Claim C4, as the code has it. On a buffer whose stored height is even,
  \<^verbatim>\<open>SetSize(w, h)\<close> with \<open>w \<le> 0\<close> or \<open>h \<le> 0\<close> returns false and leaves the whole state
  as it was, unless \<open>(w, h)\<close> is the stored size; and every call that returns false leaves
  the state as it was.
\<close>

theorem SetSize_rejects_nonpositive:
  assumes "even (height s)"
  shows "((newWidth \<le> 0 \<or> newHeight \<le> 0) \<and> \<not> (newWidth = width s \<and> newHeight = height s)
            \<longrightarrow> SetSize env s newWidth newHeight = Some (False, s)) \<and>
         (\<forall>s'. SetSize env s newWidth newHeight = Some (False, s') \<longrightarrow> s' = s)"
proof -
  have s1: "(if odd (height s) then s\<lparr>height := height s + 1\<rparr> else s) = s"
    using assms by simp
  have A: "(newWidth \<le> 0 \<or> newHeight \<le> 0) \<and> \<not> (newWidth = width s \<and> newHeight = height s)
            \<longrightarrow> SetSize env s newWidth newHeight = Some (False, s)"
    unfolding SetSize_def s1 Let_def by auto
  have B: "\<forall>s'. SetSize env s newWidth newHeight = Some (False, s') \<longrightarrow> s' = s"
    unfolding SetSize_def s1 Let_def by (auto split: if_splits option.splits)
  show ?thesis using A B by blast
qed

text \<open>
  The hypotheses hold for \<^verbatim>\<open>SetSize(0, 5)\<close> on the 4 x 4 buffer.
\<close>

theorem SetSize_rejects_nonpositive_witness:
  "even (height sized4) \<and> ((0::int) \<le> 0 \<or> (5::int) \<le> 0) \<and> \<not> (0 = width sized4 \<and> 5 = height sized4) \<and>
   SetSize samplePlatform sized4 0 5 = Some (False, sized4)"
proof -
  have h: "even (height sized4)" by (simp add: sized4_def)
  have n: "\<not> (0 = width sized4 \<and> 5 = height sized4)" by (simp add: sized4_def)
  from SetSize_rejects_nonpositive[OF h, of 0 5 samplePlatform] n h show ?thesis by simp
qed

text \<open>
  Claim C4 as stated fails on the buffer the constructor leaves: \<^verbatim>\<open>SetSize(0, 0)\<close> asks for
  the stored size and returns true at line 50, before the test for non-positive sizes.
\<close>

theorem SetSize_same_size_counterexample:
  "SetSize samplePlatform constructed 0 0 = Some (True, constructed)"
  by (simp add: SetSize_def constructed_def Let_def)

text \<open>
  Claim C7: the requested height is rounded up to even, so after a successful call with odd
  \<open>h\<close> the stored height is \<open>h + 1\<close>. The code at the input \<^verbatim>\<open>SetSize(8, 3)\<close> on the
  4 x 4 buffer: the call succeeds and the stored height is 3. Line 46 tests and increments
  the stored \<open>height\<close>, not \<open>newHeight\<close>.
\<close>

theorem SetSize_keeps_odd_height:
  "SetSize samplePlatform sized4 8 3 \<noteq> None \<and> fst (the (SetSize samplePlatform sized4 8 3)) \<and>
   height (snd (the (SetSize samplePlatform sized4 8 3))) = 3"
  by (simp add: SetSize_def samplePlatform_def sized4_def
      SetSize_slices.simps SetSize_mips.simps powerOfTwo.simps Let_def CalculateViewport_def)

text \<open>
  Line 57 tests the stored width, so a width that is no power of two is accepted when the
  stored one is: \<^verbatim>\<open>SetSize(3, 4)\<close> on the 4 x 4 buffer succeeds.
\<close>

lemma SetSize_accepts_width_3:
  "SetSize samplePlatform sized4 3 4 \<noteq> None \<and> fst (the (SetSize samplePlatform sized4 3 4)) \<and>
   width (snd (the (SetSize samplePlatform sized4 3 4))) = 3"
  by (simp add: SetSize_def samplePlatform_def sized4_def
      SetSize_slices.simps SetSize_mips.simps powerOfTwo.simps Let_def CalculateViewport_def)

text \<open>
  With a minimum mip size of at least one, \<^verbatim>\<open>SetSize\<close> returns on every input.
\<close>

lemma SetSize_returns:
  assumes "1 \<le> OCCLUSION_MIN_SIZE env"
  shows "SetSize env s newWidth newHeight \<noteq> None"
proof (cases "0 < newWidth \<and> 0 < newHeight")
  case True
  then have "SetSize_mips env newWidth newHeight [] \<noteq> None"
    using SetSize_mips_levels[OF assms, of newWidth newHeight "[]"] by simp
  then show ?thesis
    unfolding SetSize_def Let_def by (auto split: option.splits)
next
  case False
  then show ?thesis
    unfolding SetSize_def Let_def by auto
qed

subsection \<open>IsVisible: the early returns\<close>


text \<open>
  Claim C10. Whatever the box, and whatever the depth and mip data hold, \<^verbatim>\<open>IsVisible\<close>
  returns true when the depth buffer was never allocated or no triangle batch was submitted
  for the frame.
\<close>

theorem IsVisible_empty_buffer:
  assumes "buffer s = None \<or> numTriangleBatches s = 0"
  shows "IsVisible env s worldSpaceBox = Some True"
  using assms unfolding IsVisible_def by (auto split: option.splits)

text \<open>
  The constructed buffer has no depth buffer.
\<close>

theorem IsVisible_empty_buffer_witness:
  "(buffer constructed = None \<or> numTriangleBatches constructed = 0) \<and>
   IsVisible samplePlatform constructed frontBox = Some True"
proof -
  have h: "buffer constructed = None \<or> numTriangleBatches constructed = 0"
    by (simp add: constructed_def)
  from IsVisible_empty_buffer[OF h] h show ?thesis by simp
qed



subsection \<open>ClipVertices\<close>

declare ClipVertices_loop.simps [simp del]

text \<open>
  The loop of a pass up to the candidate \<open>i\<close>, then the step of the candidate, then the
  rest of the loop: the pass is the three in a row.
\<close>

lemma ClipVertices_loop_step:
  "j \<le> i \<Longrightarrow> ClipVertices_loop env plane (Suc i) j st =
     ClipVertices_body env plane i (ClipVertices_loop env plane i j st)"
proof (induction "i - j" arbitrary: j st)
  case 0
  then have "j = i" by simp
  then show ?case
    by (simp add: ClipVertices_loop.simps[of env plane "Suc i" i]
        ClipVertices_loop.simps[of env plane "Suc i" "Suc i"]
        ClipVertices_loop.simps[of env plane i i])
next
  case (Suc d)
  then have lt: "j < i" by simp
  have ih: "ClipVertices_loop env plane (Suc i) (j + 1) (ClipVertices_body env plane j st) =
     ClipVertices_body env plane i (ClipVertices_loop env plane i (j + 1) (ClipVertices_body env plane j st))"
    using Suc.hyps(1)[of "j + 1"] Suc.hyps(2) lt by simp
  show ?case
    using lt ih
    by (simp add: ClipVertices_loop.simps[of env plane "Suc i" j st]
        ClipVertices_loop.simps[of env plane i j st])
qed

lemma ClipVertices_loop_split:
  "k \<le> n \<Longrightarrow> ClipVertices_loop env plane n 0 st =
     ClipVertices_loop env plane n k (ClipVertices_loop env plane k 0 st)"
proof (induction k)
  case 0
  show ?case by (simp add: ClipVertices_loop.simps[of env plane 0 0])
next
  case (Suc k)
  then have lt: "k < n" by simp
  have "ClipVertices_loop env plane n k (ClipVertices_loop env plane k 0 st) =
      ClipVertices_loop env plane n (Suc k)
        (ClipVertices_body env plane k (ClipVertices_loop env plane k 0 st))"
    using lt by (simp add: ClipVertices_loop.simps[of env plane n k])
  then show ?case using Suc ClipVertices_loop_step[of 0 k env plane st] by simp
qed

text \<open>
  A step keeps the sizes of the two arrays and appends at most one triangle.
\<close>

lemma ClipVertices_body_shape:
  assumes "ClipVertices_body env plane i (vs, flags, num) = (vs', flags', num')"
  shows "length vs' = length vs \<and> length flags' = length flags \<and> num \<le> num' \<and> num' \<le> num + 1"
  using assms unfolding ClipVertices_body_def Let_def
  by (auto split: if_splits)


text \<open>
  The orientation is linear in each corner, so a corner moved along an edge of the triangle
  scales it: by \<open>1 - t\<close> for a corner moved by \<open>t\<close> towards another corner.
\<close>

lemma orientation_two:
  "orientation (interpolate a c t, interpolate b c s, c) = (1 - t) * (1 - s) * orientation (a, b, c)"
  "orientation (interpolate a b t, b, interpolate c b s) = (1 - t) * (1 - s) * orientation (a, b, c)"
  "orientation (a, interpolate b a t, interpolate c a s) = (1 - t) * (1 - s) * orientation (a, b, c)"
  by (simp_all add: orientation_def interpolate_def algebra_simps)

lemma orientation_one:
  "orientation (interpolate a b t, b, c) = (1 - t) * orientation (a, b, c)"
  "orientation (a, interpolate b c t, c) = (1 - t) * orientation (a, b, c)"
  "orientation (a, b, interpolate c a t) = (1 - t) * orientation (a, b, c)"
  by (simp_all add: orientation_def interpolate_def algebra_simps)

lemma orientation_new:
  "orientation (interpolate a c s, interpolate a b t, c) = (1 - s) * t * orientation (a, b, c)"
  "orientation (a, interpolate b a s, interpolate b c t) = (1 - s) * t * orientation (a, b, c)"
  "orientation (interpolate c a t, b, interpolate c b s) = (1 - s) * t * orientation (a, b, c)"
  by (simp_all add: orientation_def interpolate_def algebra_simps)

text \<open>
  The parameter of an edge clip from a negative corner to a corner that is not negative
  lies in \<open>(0, 1]\<close>; with the interpolation of the specification for \<^verbatim>\<open>ClipEdge\<close> the
  triangles a step writes keep the orientation of the candidate.
\<close>

lemma clip_parameter:
  fixes da db :: real
  assumes "da < 0" and "\<not> db < 0"
  shows "0 < da / (da - db) \<and> 0 \<le> 1 - da / (da - db)"
proof -
  have neg: "da - db < 0" using assms by simp
  have "0 < da / (da - db)" using assms(1) neg by (simp add: divide_neg_neg)
  moreover have "da / (da - db) \<le> 1" using assms neg by (simp add: divide_le_eq)
  ultimately show ?thesis by simp
qed

lemma keepsOrientation_scaled:
  assumes "orientation T' = k * orientation T" and "0 \<le> k"
  shows "keepsOrientation T' T"
proof (cases "k = 0")
  case True
  then show ?thesis using assms(1) by (simp add: keepsOrientation_def)
next
  case False
  then have "0 < k" using assms(2) by simp
  then have "sgn (orientation T') = sgn (orientation T)"
    unfolding assms(1) by (simp add: sgn_mult)
  then show ?thesis by (simp add: keepsOrientation_def)
qed


lemma keepsOrientation_two:
  fixes dp dq dr :: real
  assumes "dq < 0" and "dr < 0" and "\<not> dp < 0"
  shows "keepsOrientation (clipEdge a c dq dp, clipEdge b c dr dp, c) (a, b, c)"
    and "keepsOrientation (clipEdge a b dq dp, b, clipEdge c b dr dp) (a, b, c)"
    and "keepsOrientation (a, clipEdge b a dq dp, clipEdge c a dr dp) (a, b, c)"
proof -
  have k1: "0 \<le> 1 - dq / (dq - dp)" using clip_parameter[OF assms(1,3)] by blast
  have k2: "0 \<le> 1 - dr / (dr - dp)" using clip_parameter[OF assms(2,3)] by blast
  have k: "0 \<le> (1 - dq / (dq - dp)) * (1 - dr / (dr - dp))"
    by (rule mult_nonneg_nonneg[OF k1 k2])
  show "keepsOrientation (clipEdge a c dq dp, clipEdge b c dr dp, c) (a, b, c)"
    unfolding clipEdge_def Let_def by (rule keepsOrientation_scaled[OF orientation_two(1) k])
  show "keepsOrientation (clipEdge a b dq dp, b, clipEdge c b dr dp) (a, b, c)"
    unfolding clipEdge_def Let_def by (rule keepsOrientation_scaled[OF orientation_two(2) k])
  show "keepsOrientation (a, clipEdge b a dq dp, clipEdge c a dr dp) (a, b, c)"
    unfolding clipEdge_def Let_def by (rule keepsOrientation_scaled[OF orientation_two(3) k])
qed

lemma keepsOrientation_one:
  fixes dq dr :: real
  assumes "dq < 0" and "\<not> dr < 0"
  shows "keepsOrientation (clipEdge a b dq dr, b, c) (a, b, c)"
    and "keepsOrientation (a, clipEdge b c dq dr, c) (a, b, c)"
    and "keepsOrientation (a, b, clipEdge c a dq dr) (a, b, c)"
proof -
  have k: "0 \<le> 1 - dq / (dq - dr)"
    using clip_parameter[OF assms] by blast
  show "keepsOrientation (clipEdge a b dq dr, b, c) (a, b, c)"
    unfolding clipEdge_def Let_def by (rule keepsOrientation_scaled[OF orientation_one(1) k])
  show "keepsOrientation (a, clipEdge b c dq dr, c) (a, b, c)"
    unfolding clipEdge_def Let_def by (rule keepsOrientation_scaled[OF orientation_one(2) k])
  show "keepsOrientation (a, b, clipEdge c a dq dr) (a, b, c)"
    unfolding clipEdge_def Let_def by (rule keepsOrientation_scaled[OF orientation_one(3) k])
qed

lemma keepsOrientation_new:
  fixes dq dr dt :: real
  assumes "dq < 0" and "\<not> dr < 0" and "\<not> dt < 0"
  shows "keepsOrientation (clipEdge a c dq dt, clipEdge a b dq dr, c) (a, b, c)"
    and "keepsOrientation (a, clipEdge b a dq dt, clipEdge b c dq dr) (a, b, c)"
    and "keepsOrientation (clipEdge c a dq dr, b, clipEdge c b dq dt) (a, b, c)"
proof -
  have k1: "0 \<le> 1 - dq / (dq - dt)" using clip_parameter[OF assms(1,3)] by blast
  have k2: "0 \<le> dq / (dq - dr)" using clip_parameter[OF assms(1,2)] by simp
  have k: "0 \<le> (1 - dq / (dq - dt)) * (dq / (dq - dr))"
    by (rule mult_nonneg_nonneg[OF k1 k2])
  show "keepsOrientation (clipEdge a c dq dt, clipEdge a b dq dr, c) (a, b, c)"
    unfolding clipEdge_def Let_def by (rule keepsOrientation_scaled[OF orientation_new(1) k])
  show "keepsOrientation (a, clipEdge b a dq dt, clipEdge b c dq dr) (a, b, c)"
    unfolding clipEdge_def Let_def by (rule keepsOrientation_scaled[OF orientation_new(2) k])
  show "keepsOrientation (clipEdge c a dq dr, b, clipEdge c b dq dt) (a, b, c)"
    unfolding clipEdge_def Let_def by (rule keepsOrientation_scaled[OF orientation_new(3) k])
qed

text \<open>
  One step on an active candidate, case by case of lines 445-496: the flags, the counter
  and the triangles it leaves at the place of the candidate and at the appended place.
\<close>

lemma ClipVertices_body_cases:
  assumes act: "flags ! i" and lt: "i < num" and bound: "num < 64"
    and lf: "length flags = 64" and lv: "length vs = 192"
    and run: "ClipVertices_body env plane i (vs, flags, num) = (vs', flags', num')"
  shows "(negativeCount env plane vs i = 3 \<longrightarrow> flags' = flags[i := False] \<and> num' = num) \<and>
         (negativeCount env plane vs i = 2 \<longrightarrow>
            flags' = flags \<and> num' = num \<and>
            clippedInPlace env plane (triangleAt vs i) (triangleAt vs' i) \<and>
            (ClipEdge env = clipEdge \<longrightarrow> keepsOrientation (triangleAt vs' i) (triangleAt vs i))) \<and>
         (negativeCount env plane vs i = 1 \<longrightarrow>
            flags' = flags[num := True] \<and> num' = num + 1 \<and>
            splitInTwo env plane (triangleAt vs i) (triangleAt vs' i) (triangleAt vs' num) \<and>
            (ClipEdge env = clipEdge \<longrightarrow>
               keepsOrientation (triangleAt vs' i) (triangleAt vs i) \<and>
               keepsOrientation (triangleAt vs' num) (triangleAt vs i))) \<and>
         (negativeCount env plane vs i = 0 \<longrightarrow> flags' = flags \<and> num' = num \<and> vs' = vs)"
proof -
  define v0 where "v0 = vs ! (i * 3)"
  define v1 where "v1 = vs ! Suc (i * 3)"
  define v2 where "v2 = vs ! Suc (Suc (i * 3))"
  define d0 where "d0 = DotProduct env plane v0"
  define d1 where "d1 = DotProduct env plane v1"
  define d2 where "d2 = DotProduct env plane v2"
  note folds = v0_def[symmetric] v1_def[symmetric] v2_def[symmetric]
    d0_def[symmetric] d1_def[symmetric] d2_def[symmetric]
  have nc: "negativeCount env plane vs i =
      (if d0 < 0 then 1 else 0) + (if d1 < 0 then 1 else 0) + (if d2 < 0 then 1 else 0)"
    by (simp add: negativeCount_def d0_def d1_def d2_def v0_def v1_def v2_def)
  have T: "triangleAt vs i = (v0, v1, v2)"
    by (simp add: triangleAt_def v0_def v1_def v2_def)
  have sd: "signedDistance env plane (v0, v1, v2) 0 = d0"
    "signedDistance env plane (v0, v1, v2) (Suc 0) = d1"
    "signedDistance env plane (v0, v1, v2) 2 = d2"
    "signedDistance env plane (v0, v1, v2) (Suc (Suc 0)) = d2"
    by (simp_all add: signedDistance_def corner_def d0_def d1_def d2_def)
  have inb: "i * 3 < length vs" "Suc (i * 3) < length vs" "Suc (Suc (i * 3)) < length vs"
    "num * 3 < length vs" "Suc (num * 3) < length vs" "Suc (Suc (num * 3)) < length vs"
    using lt bound lv by simp_all
  have ne: "i * 3 \<noteq> num * 3" "i * 3 \<noteq> Suc (num * 3)" "i * 3 \<noteq> Suc (Suc (num * 3))"
    "Suc (i * 3) \<noteq> num * 3" "i * 3 \<noteq> num * 3" "Suc (i * 3) \<noteq> Suc (Suc (num * 3))"
    "Suc (Suc (i * 3)) \<noteq> num * 3" "Suc (Suc (i * 3)) \<noteq> Suc (num * 3)" "i \<noteq> num"
    using lt by simp_all
  consider (n3) "d0 < 0" "d1 < 0" "d2 < 0"
    | (n01) "d0 < 0" "d1 < 0" "\<not> d2 < 0"
    | (n02) "d0 < 0" "\<not> d1 < 0" "d2 < 0"
    | (n12) "\<not> d0 < 0" "d1 < 0" "d2 < 0"
    | (n0) "d0 < 0" "\<not> d1 < 0" "\<not> d2 < 0"
    | (n1) "\<not> d0 < 0" "d1 < 0" "\<not> d2 < 0"
    | (n2) "\<not> d0 < 0" "\<not> d1 < 0" "d2 < 0"
    | (none) "\<not> d0 < 0" "\<not> d1 < 0" "\<not> d2 < 0"
    by blast
  then show ?thesis
  proof cases
    case n3
    then have "(vs', flags', num') = (vs, flags[i := False], num)"
      using act unfolding run[symmetric] ClipVertices_body_def
      by (simp add: folds Let_def)
    then show ?thesis using n3 by (simp add: nc)
  next
    case n01
    then have "(vs', flags', num') = (vs[i * 3 := ClipEdge env v0 v2 d0 d2,
                           Suc (i * 3) := ClipEdge env v1 v2 d1 d2], flags, num)"
      using act unfolding run[symmetric] ClipVertices_body_def
      by (simp add: folds Let_def)
    then have r: "flags' = flags" "num' = num"
      "triangleAt vs' i = (ClipEdge env v0 v2 d0 d2, ClipEdge env v1 v2 d1 d2, v2)"
      using inb by (simp_all add: triangleAt_def v2_def)
    have "clippedInPlace env plane (v0, v1, v2) (ClipEdge env v0 v2 d0 d2, ClipEdge env v1 v2 d1 d2, v2)"
      unfolding clippedInPlace_def using n01 by (simp add: sd corner_def)
    moreover have "ClipEdge env = clipEdge \<longrightarrow> keepsOrientation (ClipEdge env v0 v2 d0 d2, ClipEdge env v1 v2 d1 d2, v2) (v0, v1, v2)"
      using n01 keepsOrientation_two(1)[where dq = d0 and dr = d1 and dp = d2 and a = v0 and b = v1 and c = v2] by simp
    ultimately show ?thesis using n01 r by (simp add: nc T)
  next
    case n02
    then have "(vs', flags', num') = (vs[i * 3 := ClipEdge env v0 v1 d0 d1,
                           Suc (Suc (i * 3)) := ClipEdge env v2 v1 d2 d1], flags, num)"
      using act unfolding run[symmetric] ClipVertices_body_def
      by (simp add: folds Let_def)
    then have r: "flags' = flags" "num' = num"
      "triangleAt vs' i = (ClipEdge env v0 v1 d0 d1, v1, ClipEdge env v2 v1 d2 d1)"
      using inb by (simp_all add: triangleAt_def v1_def)
    have "clippedInPlace env plane (v0, v1, v2) (ClipEdge env v0 v1 d0 d1, v1, ClipEdge env v2 v1 d2 d1)"
      unfolding clippedInPlace_def using n02 by (simp add: sd corner_def)
    moreover have "ClipEdge env = clipEdge \<longrightarrow> keepsOrientation (ClipEdge env v0 v1 d0 d1, v1, ClipEdge env v2 v1 d2 d1) (v0, v1, v2)"
      using n02 keepsOrientation_two(2)[where dq = d0 and dr = d2 and dp = d1 and a = v0 and b = v1 and c = v2] by simp
    ultimately show ?thesis using n02 r by (simp add: nc T)
  next
    case n12
    then have "(vs', flags', num') = (vs[Suc (i * 3) := ClipEdge env v1 v0 d1 d0,
                           Suc (Suc (i * 3)) := ClipEdge env v2 v0 d2 d0], flags, num)"
      using act unfolding run[symmetric] ClipVertices_body_def
      by (simp add: folds Let_def)
    then have r: "flags' = flags" "num' = num"
      "triangleAt vs' i = (v0, ClipEdge env v1 v0 d1 d0, ClipEdge env v2 v0 d2 d0)"
      using inb by (simp_all add: triangleAt_def v0_def)
    have "clippedInPlace env plane (v0, v1, v2) (v0, ClipEdge env v1 v0 d1 d0, ClipEdge env v2 v0 d2 d0)"
      unfolding clippedInPlace_def using n12 by (simp add: sd corner_def)
    moreover have "ClipEdge env = clipEdge \<longrightarrow> keepsOrientation (v0, ClipEdge env v1 v0 d1 d0, ClipEdge env v2 v0 d2 d0) (v0, v1, v2)"
      using n12 keepsOrientation_two(3)[where dq = d1 and dr = d2 and dp = d0 and a = v0 and b = v1 and c = v2] by simp
    ultimately show ?thesis using n12 r by (simp add: nc T)
  next
    case n0
    then have "(vs', flags', num') =
        (vs[num * 3 := ClipEdge env v0 v2 d0 d2, i * 3 := ClipEdge env v0 v1 d0 d1,
            Suc (num * 3) := ClipEdge env v0 v1 d0 d1, Suc (Suc (num * 3)) := v2],
         flags[num := True], Suc num)"
      using act inb ne unfolding run[symmetric] ClipVertices_body_def
      by (simp add: folds Let_def)
    then have r: "flags' = flags[num := True]" "num' = num + 1"
      "triangleAt vs' i = (ClipEdge env v0 v1 d0 d1, v1, v2)"
      "triangleAt vs' num = (ClipEdge env v0 v2 d0 d2, ClipEdge env v0 v1 d0 d1, v2)"
      using inb ne by (simp_all add: triangleAt_def v1_def v2_def)
    have "splitInTwo env plane (v0, v1, v2) (ClipEdge env v0 v1 d0 d1, v1, v2)
        (ClipEdge env v0 v2 d0 d2, ClipEdge env v0 v1 d0 d1, v2)"
      unfolding splitInTwo_def using n0 by (simp add: sd corner_def Let_def)
    moreover have "ClipEdge env = clipEdge \<longrightarrow> keepsOrientation (ClipEdge env v0 v1 d0 d1, v1, v2) (v0, v1, v2) \<and> keepsOrientation (ClipEdge env v0 v2 d0 d2, ClipEdge env v0 v1 d0 d1, v2) (v0, v1, v2)"
      using n0 keepsOrientation_one(1)[where dq = d0 and dr = d1 and a = v0 and b = v1 and c = v2] keepsOrientation_new(1)[where dq = d0 and dr = d1 and dt = d2 and a = v0 and b = v1 and c = v2] by simp
    ultimately show ?thesis using n0 r by (simp add: nc T)
  next
    case n1
    then have "(vs', flags', num') =
        (vs[Suc (num * 3) := ClipEdge env v1 v0 d1 d0, Suc (i * 3) := ClipEdge env v1 v2 d1 d2,
            Suc (Suc (num * 3)) := ClipEdge env v1 v2 d1 d2, num * 3 := v0],
         flags[num := True], Suc num)"
      using act inb ne unfolding run[symmetric] ClipVertices_body_def
      by (simp add: folds Let_def)
    then have r: "flags' = flags[num := True]" "num' = num + 1"
      "triangleAt vs' i = (v0, ClipEdge env v1 v2 d1 d2, v2)"
      "triangleAt vs' num = (v0, ClipEdge env v1 v0 d1 d0, ClipEdge env v1 v2 d1 d2)"
      using inb ne by (simp_all add: triangleAt_def v0_def v2_def)
    have "splitInTwo env plane (v0, v1, v2) (v0, ClipEdge env v1 v2 d1 d2, v2)
        (v0, ClipEdge env v1 v0 d1 d0, ClipEdge env v1 v2 d1 d2)"
      unfolding splitInTwo_def using n1 by (simp add: sd corner_def Let_def)
    moreover have "ClipEdge env = clipEdge \<longrightarrow> keepsOrientation (v0, ClipEdge env v1 v2 d1 d2, v2) (v0, v1, v2) \<and> keepsOrientation (v0, ClipEdge env v1 v0 d1 d0, ClipEdge env v1 v2 d1 d2) (v0, v1, v2)"
      using n1 keepsOrientation_one(2)[where dq = d1 and dr = d2 and a = v0 and b = v1 and c = v2] keepsOrientation_new(2)[where dq = d1 and dr = d2 and dt = d0 and a = v0 and b = v1 and c = v2] by simp
    ultimately show ?thesis using n1 r by (simp add: nc T)
  next
    case n2
    then have "(vs', flags', num') =
        (vs[Suc (Suc (num * 3)) := ClipEdge env v2 v1 d2 d1, Suc (Suc (i * 3)) := ClipEdge env v2 v0 d2 d0,
            num * 3 := ClipEdge env v2 v0 d2 d0, Suc (num * 3) := v1],
         flags[num := True], Suc num)"
      using act inb ne unfolding run[symmetric] ClipVertices_body_def
      by (simp add: folds Let_def)
    then have r: "flags' = flags[num := True]" "num' = num + 1"
      "triangleAt vs' i = (v0, v1, ClipEdge env v2 v0 d2 d0)"
      "triangleAt vs' num = (ClipEdge env v2 v0 d2 d0, v1, ClipEdge env v2 v1 d2 d1)"
      using inb ne by (simp_all add: triangleAt_def v0_def v1_def)
    have "splitInTwo env plane (v0, v1, v2) (v0, v1, ClipEdge env v2 v0 d2 d0)
        (ClipEdge env v2 v0 d2 d0, v1, ClipEdge env v2 v1 d2 d1)"
      unfolding splitInTwo_def using n2 by (simp add: sd corner_def Let_def)
    moreover have "ClipEdge env = clipEdge \<longrightarrow> keepsOrientation (v0, v1, ClipEdge env v2 v0 d2 d0) (v0, v1, v2) \<and> keepsOrientation (ClipEdge env v2 v0 d2 d0, v1, ClipEdge env v2 v1 d2 d1) (v0, v1, v2)"
      using n2 keepsOrientation_one(3)[where dq = d2 and dr = d0 and a = v0 and b = v1 and c = v2] keepsOrientation_new(3)[where dq = d2 and dr = d0 and dt = d1 and a = v0 and b = v1 and c = v2] by simp
    ultimately show ?thesis using n2 r by (simp add: nc T)
  next
    case none
    then have "(vs', flags', num') = (vs, flags, num)"
      using act unfolding run[symmetric] ClipVertices_body_def
      by (simp add: folds Let_def)
    then show ?thesis using none by (simp add: nc)
  qed
qed




text \<open>
  A step on the candidate \<open>i\<close> leaves the flag and the vertices of every other triangle
  that was there, so each candidate of a pass is classified by the vertices it had when the
  pass started.
\<close>

lemma ClipVertices_body_frame:
  assumes "j \<noteq> i" and "j < numClipTriangles"
    and "st = ClipVertices_body env plane i (verts, clipTriangles, numClipTriangles)"
  shows "fst (snd st) ! j = clipTriangles ! j \<and>
         fst st ! (j * 3) = verts ! (j * 3) \<and>
         fst st ! (j * 3 + 1) = verts ! (j * 3 + 1) \<and>
         fst st ! (j * 3 + 2) = verts ! (j * 3 + 2)"
proof -
  have a: "j * 3 \<noteq> i * 3" "j * 3 \<noteq> i * 3 + 1" "j * 3 \<noteq> i * 3 + 2"
    "j * 3 + 1 \<noteq> i * 3" "j * 3 + 1 \<noteq> i * 3 + 1" "j * 3 + 1 \<noteq> i * 3 + 2"
    "j * 3 + 2 \<noteq> i * 3" "j * 3 + 2 \<noteq> i * 3 + 1" "j * 3 + 2 \<noteq> i * 3 + 2"
    using assms(1) by presburger+
  have b: "j * 3 \<noteq> numClipTriangles * 3" "j * 3 \<noteq> numClipTriangles * 3 + 1" "j * 3 \<noteq> numClipTriangles * 3 + 2"
    "j * 3 + 1 \<noteq> numClipTriangles * 3" "j * 3 + 1 \<noteq> numClipTriangles * 3 + 1" "j * 3 + 1 \<noteq> numClipTriangles * 3 + 2"
    "j * 3 + 2 \<noteq> numClipTriangles * 3" "j * 3 + 2 \<noteq> numClipTriangles * 3 + 1" "j * 3 + 2 \<noteq> numClipTriangles * 3 + 2"
    using assms(2) by presburger+
  have c: "j \<noteq> numClipTriangles" using assms(2) by simp
  show ?thesis
    unfolding assms(3) ClipVertices_body_def Let_def
    using a b c assms(1) by (simp add: nth_list_update del: One_nat_def)
qed

text \<open>
  Until its step a candidate keeps the flag and the vertices it had when the pass started,
  while the counter grows by at most one a step; after its step the triangles it left are
  not touched again in the pass.
\<close>

lemma triangleAt_frame:
  assumes "j \<noteq> i" and "j < num"
    and "ClipVertices_body env plane i (vs, flags, num) = (vs', flags', num')"
  shows "flags' ! j = flags ! j \<and> triangleAt vs' j = triangleAt vs j"
  using ClipVertices_body_frame[OF assms(1,2) assms(3)[symmetric]]
  by (simp add: triangleAt_def)

lemma negativeCount_triangleAt:
  "triangleAt vs' i = triangleAt vs i \<Longrightarrow>
     negativeCount env plane vs' i = negativeCount env plane vs i"
  by (simp add: triangleAt_def negativeCount_def)

lemma ClipVertices_prefix:
  assumes "k \<le> n"
    and "ClipVertices_loop env plane k 0 (verts, flags, n) = (vk, fk, nk)"
  shows "length vk = length verts \<and> length fk = length flags \<and> n \<le> nk \<and> nk \<le> n + k \<and>
         (\<forall>j. k \<le> j \<and> j < n \<longrightarrow> fk ! j = flags ! j \<and> triangleAt vk j = triangleAt verts j)"
  using assms
proof (induction k arbitrary: vk fk nk)
  case 0
  then show ?case by (simp add: ClipVertices_loop.simps[of env plane 0 0])
next
  case (Suc k)
  obtain va fa na where a: "ClipVertices_loop env plane k 0 (verts, flags, n) = (va, fa, na)"
    by (cases "ClipVertices_loop env plane k 0 (verts, flags, n)") auto
  have ih: "length va = length verts \<and> length fa = length flags \<and> n \<le> na \<and> na \<le> n + k \<and>
         (\<forall>j. k \<le> j \<and> j < n \<longrightarrow> fa ! j = flags ! j \<and> triangleAt va j = triangleAt verts j)"
    using Suc.IH[OF _ a] Suc.prems(1) by simp
  have b: "ClipVertices_body env plane k (va, fa, na) = (vk, fk, nk)"
    using ClipVertices_loop_step[of 0 k env plane "(verts, flags, n)"] a Suc.prems(2) by simp
  have sh: "length vk = length va \<and> length fk = length fa \<and> na \<le> nk \<and> nk \<le> na + 1"
    by (rule ClipVertices_body_shape[OF b])
  have fr: "\<forall>j. Suc k \<le> j \<and> j < n \<longrightarrow> fk ! j = flags ! j \<and> triangleAt vk j = triangleAt verts j"
  proof (intro allI impI)
    fix j
    assume j: "Suc k \<le> j \<and> j < n"
    then have "j \<noteq> k" and "j < na" using ih by simp_all
    then have "fk ! j = fa ! j \<and> triangleAt vk j = triangleAt va j"
      by (rule triangleAt_frame[OF _ _ b])
    then show "fk ! j = flags ! j \<and> triangleAt vk j = triangleAt verts j"
      using ih j by simp
  qed
  show ?case using ih sh fr by simp
qed

lemma ClipVertices_suffix:
  assumes "ClipVertices_loop env plane n k (vk, fk, nk) = (vs', flags', num')"
  shows "nk \<le> num' \<and>
         (\<forall>j. (j < k \<or> n \<le> j) \<and> j < nk \<longrightarrow>
            flags' ! j = fk ! j \<and> triangleAt vs' j = triangleAt vk j)"
  using assms
proof (induction "n - k" arbitrary: k vk fk nk)
  case 0
  then have "ClipVertices_loop env plane n k (vk, fk, nk) = (vk, fk, nk)"
    by (simp add: ClipVertices_loop.simps[of env plane n k])
  then show ?case using 0 by simp
next
  case (Suc d)
  then have lt: "k < n" by simp
  obtain va fa na where b: "ClipVertices_body env plane k (vk, fk, nk) = (va, fa, na)"
    by (cases "ClipVertices_body env plane k (vk, fk, nk)") auto
  have run: "ClipVertices_loop env plane n (k + 1) (va, fa, na) = (vs', flags', num')"
    using Suc.prems lt b by (simp add: ClipVertices_loop.simps[of env plane n k])
  have d: "d = n - (k + 1)" using Suc.hyps(2) by simp
  have ih: "na \<le> num' \<and>
         (\<forall>j. (j < k + 1 \<or> n \<le> j) \<and> j < na \<longrightarrow>
            flags' ! j = fa ! j \<and> triangleAt vs' j = triangleAt va j)"
    by (rule Suc.hyps(1)[OF d run])
  have sh: "nk \<le> na" using ClipVertices_body_shape[OF b] by simp
  have "\<forall>j. (j < k \<or> n \<le> j) \<and> j < nk \<longrightarrow>
            flags' ! j = fk ! j \<and> triangleAt vs' j = triangleAt vk j"
  proof (intro allI impI)
    fix j
    assume j: "(j < k \<or> n \<le> j) \<and> j < nk"
    then have ne: "j \<noteq> k" using lt by auto
    have "fa ! j = fk ! j \<and> triangleAt va j = triangleAt vk j"
      using triangleAt_frame[OF ne _ b] j by simp
    moreover have "flags' ! j = fa ! j \<and> triangleAt vs' j = triangleAt va j"
      using ih j sh by auto
    ultimately show "flags' ! j = fk ! j \<and> triangleAt vs' j = triangleAt vk j" by simp
  qed
  then show ?case using ih sh by simp
qed

text \<open>
  Claim C3: a plane pass of \<^verbatim>\<open>ClipVertices\<close> on an active candidate \<open>i\<close>, by the number of its
  vertices with negative signed distance to the plane. The pass starts with at most 32
  triangles in the arrays of 64 flags and 192 vertices (the bound of line 509: each of the
  six planes at most doubles the count); \<open>m\<close> is the counter when the loop reaches the
  candidate, \<open>stA\<close> the state after the candidate's step, and the primed names are the state
  when the pass returns. Three negative: the step leaves no triangle and the candidate ends
  discarded. Two: the step leaves one triangle, the candidate stays active at its place
  with both edges to the positive vertex clipped. One: the step leaves two triangles, the
  candidate stays active at its place with one clipped edge point, and a triangle is
  appended at the place \<open>m\<close> behind the triangles of the start, active, with the two clipped
  edge points and the last positive vertex in the order of the candidate. None: one
  triangle, the candidate stays active and unchanged. With the interpolation of the
  specification for \<^verbatim>\<open>ClipEdge\<close>, every triangle left keeps the orientation of the
  candidate.
\<close>

theorem ClipVertices_cardinality:
  assumes lf: "length clipTriangles = 64" and lv: "length verts = 192"
    and n32: "numClipTriangles \<le> 32" and i: "i < numClipTriangles" and act: "clipTriangles ! i"
    and before: "ClipVertices_loop env plane i 0 (verts, clipTriangles, numClipTriangles) = (vertsB, flagsB, m)"
    and step: "ClipVertices_body env plane i (vertsB, flagsB, m) = stA"
    and pass: "ClipVertices env plane (verts, clipTriangles, numClipTriangles) = (verts', clipTriangles', numClipTriangles')"
  shows "ClipVertices_loop env plane numClipTriangles (Suc i) stA = (verts', clipTriangles', numClipTriangles') \<and>
         (negativeCount env plane verts i = 3 \<longrightarrow>
            outputTriangles i m stA = 0 \<and> \<not> clipTriangles' ! i) \<and>
         (negativeCount env plane verts i = 2 \<longrightarrow>
            outputTriangles i m stA = 1 \<and> clipTriangles' ! i \<and>
            clippedInPlace env plane (triangleAt verts i) (triangleAt verts' i) \<and>
            (ClipEdge env = clipEdge \<longrightarrow>
               keepsOrientation (triangleAt verts' i) (triangleAt verts i))) \<and>
         (negativeCount env plane verts i = 1 \<longrightarrow>
            outputTriangles i m stA = 2 \<and> clipTriangles' ! i \<and>
            numClipTriangles \<le> m \<and> m < numClipTriangles' \<and> clipTriangles' ! m \<and>
            splitInTwo env plane (triangleAt verts i) (triangleAt verts' i) (triangleAt verts' m) \<and>
            (ClipEdge env = clipEdge \<longrightarrow>
               keepsOrientation (triangleAt verts' i) (triangleAt verts i) \<and>
               keepsOrientation (triangleAt verts' m) (triangleAt verts i))) \<and>
         (negativeCount env plane verts i = 0 \<longrightarrow>
            outputTriangles i m stA = 1 \<and> clipTriangles' ! i \<and>
            triangleAt verts' i = triangleAt verts i)"
proof -
  obtain vA fA nA where A: "stA = (vA, fA, nA)" by (cases stA) auto
  have stepA: "ClipVertices_body env plane i (vertsB, flagsB, m) = (vA, fA, nA)"
    using step A by simp
  have pre: "length vertsB = length verts \<and> length flagsB = length clipTriangles \<and>
      numClipTriangles \<le> m \<and> m \<le> numClipTriangles + i \<and>
      (\<forall>j. i \<le> j \<and> j < numClipTriangles \<longrightarrow>
         flagsB ! j = clipTriangles ! j \<and> triangleAt vertsB j = triangleAt verts j)"
    using ClipVertices_prefix[OF _ before] i by simp
  then have own: "flagsB ! i" "triangleAt vertsB i = triangleAt verts i"
    using i act by simp_all
  have m64: "m < 64" and im: "i < m" and nm: "numClipTriangles \<le> m"
    using pre i n32 by simp_all
  have lB: "length flagsB = 64" "length vertsB = 192" using pre lf lv by simp_all
  have nc: "negativeCount env plane vertsB i = negativeCount env plane verts i"
    by (rule negativeCount_triangleAt[OF own(2)])
  note cases = ClipVertices_body_cases[OF own(1) im m64 lB stepA, unfolded nc own(2)]
  note k3 = cases[THEN conjunct1]
  note k2 = cases[THEN conjunct2, THEN conjunct1]
  note k1 = cases[THEN conjunct2, THEN conjunct2, THEN conjunct1]
  note k0 = cases[THEN conjunct2, THEN conjunct2, THEN conjunct2]
  have sh: "length fA = length flagsB \<and> m \<le> nA" using ClipVertices_body_shape[OF stepA] by simp
  have whole: "ClipVertices_loop env plane numClipTriangles (Suc i) stA =
      (verts', clipTriangles', numClipTriangles')"
    using ClipVertices_loop_split[of "Suc i" numClipTriangles env plane "(verts, clipTriangles, numClipTriangles)"]
      ClipVertices_loop_step[of 0 i env plane "(verts, clipTriangles, numClipTriangles)"]
      i before step pass
    by (simp add: ClipVertices_def)
  have suf: "nA \<le> numClipTriangles' \<and>
         (\<forall>j. (j < Suc i \<or> numClipTriangles \<le> j) \<and> j < nA \<longrightarrow>
            clipTriangles' ! j = fA ! j \<and> triangleAt verts' j = triangleAt vA j)"
    using ClipVertices_suffix[of env plane numClipTriangles "Suc i" vA fA nA] whole A by simp
  have keptI: "clipTriangles' ! i = fA ! i" "triangleAt verts' i = triangleAt vA i"
    using suf im sh by simp_all
  have c3: "negativeCount env plane verts i = 3 \<longrightarrow>
            outputTriangles i m stA = 0 \<and> \<not> clipTriangles' ! i"
    using k3 keptI lB im m64 by (simp add: outputTriangles_def A)
  have c2: "negativeCount env plane verts i = 2 \<longrightarrow>
            outputTriangles i m stA = 1 \<and> clipTriangles' ! i \<and>
            clippedInPlace env plane (triangleAt verts i) (triangleAt verts' i) \<and>
            (ClipEdge env = clipEdge \<longrightarrow>
               keepsOrientation (triangleAt verts' i) (triangleAt verts i))"
    using k2 keptI own(1) by (simp add: outputTriangles_def A)
  have c0: "negativeCount env plane verts i = 0 \<longrightarrow>
            outputTriangles i m stA = 1 \<and> clipTriangles' ! i \<and>
            triangleAt verts' i = triangleAt verts i"
    using k0 keptI own by (simp add: outputTriangles_def A)
  have c1: "negativeCount env plane verts i = 1 \<longrightarrow>
            outputTriangles i m stA = 2 \<and> clipTriangles' ! i \<and>
            numClipTriangles \<le> m \<and> m < numClipTriangles' \<and> clipTriangles' ! m \<and>
            splitInTwo env plane (triangleAt verts i) (triangleAt verts' i) (triangleAt verts' m) \<and>
            (ClipEdge env = clipEdge \<longrightarrow>
               keepsOrientation (triangleAt verts' i) (triangleAt verts i) \<and>
               keepsOrientation (triangleAt verts' m) (triangleAt verts i))"
  proof
    assume one: "negativeCount env plane verts i = 1"
    have r: "fA = flagsB[m := True]" "nA = m + 1"
      "splitInTwo env plane (triangleAt verts i) (triangleAt vA i) (triangleAt vA m)"
      "ClipEdge env = clipEdge \<longrightarrow>
         keepsOrientation (triangleAt vA i) (triangleAt verts i) \<and>
         keepsOrientation (triangleAt vA m) (triangleAt verts i)"
      using k1 one by simp_all
    have keptM: "clipTriangles' ! m = fA ! m" "triangleAt verts' m = triangleAt vA m"
      using suf nm r(2) by simp_all
    have fi: "fA ! i" using r(1) own(1) im lB by simp
    have fm: "fA ! m" using r(1) m64 lB by simp
    have lt: "m < numClipTriangles'" using suf r(2) by simp
    have out: "outputTriangles i m stA = 2" using fi r(2) by (simp add: outputTriangles_def A)
    show "outputTriangles i m stA = 2 \<and> clipTriangles' ! i \<and>
            numClipTriangles \<le> m \<and> m < numClipTriangles' \<and> clipTriangles' ! m \<and>
            splitInTwo env plane (triangleAt verts i) (triangleAt verts' i) (triangleAt verts' m) \<and>
            (ClipEdge env = clipEdge \<longrightarrow>
               keepsOrientation (triangleAt verts' i) (triangleAt verts i) \<and>
               keepsOrientation (triangleAt verts' m) (triangleAt verts i))"
      unfolding keptI keptM using out fi fm nm lt r(3,4) by simp
  qed
  show ?thesis by (intro conjI) (fact whole, fact c3, fact c2, fact c1, fact c0)
qed

text \<open>
  The first pass of a call of \<^verbatim>\<open>AddTriangle\<close>: one triangle, whose first vertex is beyond
  the plane \<open>x = w\<close>. The pass leaves the candidate with its first vertex moved onto the
  plane and appends the triangle of the two clipped points and the last vertex.
\<close>

lemma clipPass_eval:
  "ClipVertices samplePlatform planeXPos (clipVerts, clipFlags, 1) =
     (clipVerts[3 := \<lparr>x = 1, y = 1 / 2, z = 1 / 2, w = 1\<rparr>,
                0 := \<lparr>x = 1, y = 0, z = 1 / 2, w = 1\<rparr>,
                4 := \<lparr>x = 1, y = 0, z = 1 / 2, w = 1\<rparr>,
                5 := \<lparr>x = 0, y = 1, z = 1 / 2, w = 1\<rparr>],
      clipFlags[1 := True], 2)"
proof -
  have v: "clipVerts ! 0 = \<lparr>x = 2, y = 0, z = 1 / 2, w = 1\<rparr>"
    "clipVerts ! Suc 0 = \<lparr>x = 0, y = 0, z = 1 / 2, w = 1\<rparr>"
    "clipVerts ! Suc (Suc 0) = \<lparr>x = 0, y = 1, z = 1 / 2, w = 1\<rparr>"
    "length clipVerts = 192"
    by (simp_all add: clipVerts_def)
  have f: "clipFlags ! 0" by (simp add: clipFlags_def)
  have l: "ClipVertices samplePlatform planeXPos (clipVerts, clipFlags, 1) =
      ClipVertices_body samplePlatform planeXPos 0 (clipVerts, clipFlags, 1)"
    by (simp add: ClipVertices_def ClipVertices_loop.simps[of _ _ "Suc 0" 0]
        ClipVertices_loop.simps[of _ _ "Suc 0" "Suc 0"])
  show ?thesis
    unfolding l ClipVertices_body_def
    by (simp add: Let_def v f samplePlatform_def dotProduct_def planeXPos_def
        clipEdge_def interpolate_def)
qed

lemma clipPass_triangles:
  "triangleAt (fst (ClipVertices samplePlatform planeXPos (clipVerts, clipFlags, 1))) 0 =
     (\<lparr>x = 1, y = 0, z = 1 / 2, w = 1\<rparr>, \<lparr>x = 0, y = 0, z = 1 / 2, w = 1\<rparr>,
      \<lparr>x = 0, y = 1, z = 1 / 2, w = 1\<rparr>) \<and>
   triangleAt (fst (ClipVertices samplePlatform planeXPos (clipVerts, clipFlags, 1))) 1 =
     (\<lparr>x = 1, y = 1 / 2, z = 1 / 2, w = 1\<rparr>, \<lparr>x = 1, y = 0, z = 1 / 2, w = 1\<rparr>,
      \<lparr>x = 0, y = 1, z = 1 / 2, w = 1\<rparr>)"
proof -
  have v: "clipVerts ! Suc 0 = \<lparr>x = 0, y = 0, z = 1 / 2, w = 1\<rparr>"
    "clipVerts ! Suc (Suc 0) = \<lparr>x = 0, y = 1, z = 1 / 2, w = 1\<rparr>"
    "length clipVerts = 192"
    by (simp_all add: clipVerts_def)
  show ?thesis unfolding clipPass_eval by (simp add: triangleAt_def v)
qed

text \<open>
  The hypotheses hold for that pass: one negative vertex, two triangles.
\<close>

theorem ClipVertices_cardinality_witness:
  "length clipFlags = 64 \<and> length clipVerts = 192 \<and> (1::nat) \<le> 32 \<and> (0::nat) < 1 \<and>
   clipFlags ! 0 \<and>
   ClipVertices_loop samplePlatform planeXPos 0 0 (clipVerts, clipFlags, 1) = (clipVerts, clipFlags, 1) \<and>
   negativeCount samplePlatform planeXPos clipVerts 0 = 1 \<and>
   ClipEdge samplePlatform = clipEdge \<and>
   outputTriangles 0 1 (ClipVertices_body samplePlatform planeXPos 0 (clipVerts, clipFlags, 1)) = 2 \<and>
   fst (snd (ClipVertices samplePlatform planeXPos (clipVerts, clipFlags, 1))) ! 0 \<and>
   fst (snd (ClipVertices samplePlatform planeXPos (clipVerts, clipFlags, 1))) ! 1 \<and>
   1 < snd (snd (ClipVertices samplePlatform planeXPos (clipVerts, clipFlags, 1))) \<and>
   splitInTwo samplePlatform planeXPos (triangleAt clipVerts 0)
     (triangleAt (fst (ClipVertices samplePlatform planeXPos (clipVerts, clipFlags, 1))) 0)
     (triangleAt (fst (ClipVertices samplePlatform planeXPos (clipVerts, clipFlags, 1))) 1) \<and>
   keepsOrientation
     (triangleAt (fst (ClipVertices samplePlatform planeXPos (clipVerts, clipFlags, 1))) 0)
     (triangleAt clipVerts 0) \<and>
   keepsOrientation
     (triangleAt (fst (ClipVertices samplePlatform planeXPos (clipVerts, clipFlags, 1))) 1)
     (triangleAt clipVerts 0)"
proof -
  let ?R = "ClipVertices samplePlatform planeXPos (clipVerts, clipFlags, 1)"
  have lf: "length clipFlags = 64" by (simp add: clipFlags_def)
  have lv: "length clipVerts = 192" by (simp add: clipVerts_def)
  have n32: "(1::nat) \<le> 32" by simp
  have i0: "(0::nat) < 1" by simp
  have act: "clipFlags ! 0" by (simp add: clipFlags_def)
  have before: "ClipVertices_loop samplePlatform planeXPos 0 0 (clipVerts, clipFlags, 1) =
      (clipVerts, clipFlags, 1)"
    by (simp add: ClipVertices_loop.simps[of _ _ 0 0])
  have pass: "?R = (fst ?R, fst (snd ?R), snd (snd ?R))" by simp
  have one: "negativeCount samplePlatform planeXPos clipVerts 0 = 1"
    by (simp add: negativeCount_def samplePlatform_def dotProduct_def planeXPos_def clipVerts_def)
  have ce: "ClipEdge samplePlatform = clipEdge" by (simp add: samplePlatform_def)
  note all = ClipVertices_cardinality[OF lf lv n32 i0 act before refl pass]
  note c1 = all[THEN conjunct2, THEN conjunct2, THEN conjunct2, THEN conjunct1, rule_format, OF one]
  have r: "outputTriangles 0 1 (ClipVertices_body samplePlatform planeXPos 0 (clipVerts, clipFlags, 1)) = 2"
    "fst (snd ?R) ! 0" "fst (snd ?R) ! 1" "1 < snd (snd ?R)"
    "splitInTwo samplePlatform planeXPos (triangleAt clipVerts 0) (triangleAt (fst ?R) 0)
       (triangleAt (fst ?R) 1)"
    "keepsOrientation (triangleAt (fst ?R) 0) (triangleAt clipVerts 0)"
    "keepsOrientation (triangleAt (fst ?R) 1) (triangleAt clipVerts 0)"
    using c1 ce by blast+
  show ?thesis
    by (intro conjI) (fact lf, fact lv, fact n32, fact i0, fact act, fact before, fact one,
        fact ce, fact r(1), fact r(2), fact r(3), fact r(4), fact r(5), fact r(6), fact r(7))
qed

subsection \<open>AddTriangle\<close>

text \<open>
  The 16 x 16 buffer is what \<^verbatim>\<open>SetSize(16, 16)\<close> makes of the constructed one.
\<close>

lemma sized16_reached: "SetSize samplePlatform constructed 16 16 = Some (True, sized16)"
  by (simp add: SetSize_def samplePlatform_def sized16_def constructed_def idleTasks_def
      SetSize_slices.simps SetSize_mips.simps powerOfTwo.simps Let_def CalculateViewport_def)


text \<open>
  No vertex of the sample triangle is outside a frustum plane: it takes the fully-inside
  path.
\<close>

lemma inside_masks: "AddTriangle_masks insideTriangle 0 0 0 = (0, 0)"
  by (simp add: insideTriangle_def vertexClipMask_def Let_def)

text \<open>
  Claim C9: a surviving triangle is put into the bucket of exactly the slices whose rows
  overlap its extent \<open>minY\<close> to \<open>maxY\<close>, by the same test on both paths. The code on
  the 16 x 16 buffer, for the fully-inside triangle of extent 1 to 3: \<^verbatim>\<open>AddTriangle\<close> puts
  it into slice 0 only, although slice 1 is the rows 3 to 5; the slice loop of the clipped
  path, for the same extent, puts it into slices 0 and 1. Line 372 tests
  \<open>maxY > sliceStartY\<close> where line 422 tests \<open>maxY \<ge> startY\<close>.
\<close>

theorem AddTriangle_inside_misses_slice:
  "triangleIndices (AddTriangle samplePlatform sized16 emptyTask insideTriangle) =
     [[0], [], [], [], [], [], [], []] \<and>
   AddTriangle_slices_clipped sized16 1 3 0 0 (triangleIndices emptyTask) =
     [[0], [0], [], [], [], [], [], []] \<and>
   startY (rasterizeTrianglesTasks sized16 ! 1) = 3 \<and> endY (rasterizeTrianglesTasks sized16 ! 1) = 6"
proof -
  have pv: "map (ViewportTransform samplePlatform sized16) insideTriangle =
      [\<lparr>x = 9 / 2, y = 3 / 2, z = 8388608\<rparr>, \<lparr>x = 25 / 2, y = 3 / 2, z = 8388608\<rparr>,
       \<lparr>x = 17 / 2, y = 7 / 2, z = 8388608\<rparr>]"
    by (simp add: samplePlatform_def viewportOf_def insideTriangle_def sized16_def)
  have A: "triangleIndices (AddTriangle samplePlatform sized16 emptyTask insideTriangle) =
     [[0], [], [], [], [], [], [], []]"
    unfolding AddTriangle_def inside_masks
    by (simp add: AddTriangle_inside_def samplePlatform_def viewportOf_def insideTriangle_def
        sized16_def checkFacing_def int_cast_def emptyTask_def Let_def)
  have B: "AddTriangle_slices_clipped sized16 1 3 0 0 (triangleIndices emptyTask) =
     [[0], [0], [], [], [], [], [], []]"
    by (simp add: sized16_def emptyTask_def Let_def)
  show ?thesis using A B by (simp add: sized16_def)
qed

subsection \<open>IsVisible: the scan of the hierarchy\<close>

declare IsVisible_mipSpan.simps [simp del]
declare IsVisible_pixelSpan.simps [simp del]
declare Build_pixelRow1.simps [simp del] Build_pixelRow2.simps [simp del] Build_pixelRows.simps [simp del]
declare Build_mipRow1.simps [simp del] Build_mipRow2.simps [simp del] Build_mipRows.simps [simp del]
declare Build_levels.simps [simp del]

text \<open>
  The 1 x 1 buffer is what \<^verbatim>\<open>SetSize(1, 1)\<close> makes of the constructed one.
\<close>

lemma sized1_reached: "SetSize samplePlatform constructed 1 1 = Some (True, sized1)"
  by (simp add: SetSize_def samplePlatform_def sized1_def constructed_def idleTasks_def
      SetSize_slices.simps SetSize_mips.simps powerOfTwo.simps Let_def CalculateViewport_def)


text \<open>
  The inner loop over one row of cells: it returns true when some cell of the span has
  \<open>zt \<le> min\<close>; otherwise it falls through, and \<open>allOccluded\<close> survives when every cell
  of the span has \<open>zt > max\<close>.
\<close>

lemma IsVisible_mipSpan_result:
  "IsVisible_mipSpan zt mip src endp a =
     (if \<exists>k. src \<le> k \<and> k \<le> endp \<and> zt \<le> min_d (cell mip k) then Returned True
      else Continue (a \<and> (\<forall>k. src \<le> k \<and> k \<le> endp \<longrightarrow> \<not> zt \<le> max_d (cell mip k))))"
proof (induction zt mip src endp a rule: IsVisible_mipSpan.induct)
  case (1 zt mip src endp a)
  show ?case
  proof (cases "src \<le> endp")
    case False
    then show ?thesis by (subst IsVisible_mipSpan.simps) auto
  next
    case True
    note le = this
    show ?thesis
    proof (cases "zt \<le> min_d (cell mip src)")
      case True
      then show ?thesis using le by (subst IsVisible_mipSpan.simps) auto
    next
      case False
      have split: "\<And>P. (\<exists>k. src \<le> k \<and> k \<le> endp \<and> P k) = (P src \<or> (\<exists>k. src + 1 \<le> k \<and> k \<le> endp \<and> P k))"
        using le by (metis add1_zle_eq order_le_less order_refl)
      have splitA: "\<And>P. (\<forall>k. src \<le> k \<and> k \<le> endp \<longrightarrow> P k) = (P src \<and> (\<forall>k. src + 1 \<le> k \<and> k \<le> endp \<longrightarrow> P k))"
        using le by (metis add1_zle_eq order_le_less order_refl)
      show ?thesis
        using "1.IH"[OF le False] le False
        by (subst IsVisible_mipSpan.simps) (auto simp: split[of "\<lambda>k. zt \<le> min_d (cell mip k)"] splitA[of "\<lambda>k. \<not> zt \<le> max_d (cell mip k)"])
    qed
  qed
qed

text \<open>
  With a row stride of zero the row loop stays on its first row: unless that row returns
  true, the loop never ends.
\<close>

lemma IsVisible_mipRows_stuck_aux:
  assumes "IsVisible_mipRows zt mip mipWidth lf rt row endRow a = Some r"
  shows "\<not> (mipWidth = 0 \<and> row \<le> endRow \<and>
            (\<forall>k. row + lf \<le> k \<and> k \<le> row + rt \<longrightarrow> \<not> zt \<le> min_d (cell mip k)))"
proof (rule IsVisible_mipRows.raw_induct[where P = "\<lambda>zt mip mipWidth lf rt row endRow a r.
      \<not> (mipWidth = 0 \<and> row \<le> endRow \<and>
            (\<forall>k. row + lf \<le> k \<and> k \<le> row + rt \<longrightarrow> \<not> zt \<le> min_d (cell mip k)))", OF _ assms])
  fix rows zt mip mipWidth lf rt row endRow a r
  assume IH: "\<And>zt mip mipWidth lf rt row endRow a r.
       rows zt mip mipWidth lf rt row endRow a = Some r \<Longrightarrow>
       \<not> (mipWidth = 0 \<and> row \<le> endRow \<and>
            (\<forall>k. row + lf \<le> k \<and> k \<le> row + rt \<longrightarrow> \<not> zt \<le> min_d (cell mip k)))"
    and step: "(if row \<le> endRow
      then case IsVisible_mipSpan zt mip (row + lf) (row + rt) a of
           Returned b \<Rightarrow> Some (Returned b)
           | Continue a' \<Rightarrow> rows zt mip mipWidth lf rt (row + mipWidth) endRow a'
      else Some (Continue a)) = Some r"
  show "\<not> (mipWidth = 0 \<and> row \<le> endRow \<and>
            (\<forall>k. row + lf \<le> k \<and> k \<le> row + rt \<longrightarrow> \<not> zt \<le> min_d (cell mip k)))"
  proof
    assume inv: "mipWidth = 0 \<and> row \<le> endRow \<and>
      (\<forall>k. row + lf \<le> k \<and> k \<le> row + rt \<longrightarrow> \<not> zt \<le> min_d (cell mip k))"
    then have "\<exists>a'. IsVisible_mipSpan zt mip (row + lf) (row + rt) a = Continue a'"
      by (simp add: IsVisible_mipSpan_result)
    then obtain a' where a': "IsVisible_mipSpan zt mip (row + lf) (row + rt) a = Continue a'" ..
    from step inv a' have "rows zt mip mipWidth lf rt (row + mipWidth) endRow a' = Some r"
      by simp
    from IH[OF this] inv show False by simp
  qed
qed

lemma IsVisible_mipRows_stuck:
  assumes "mipWidth = 0" and "row \<le> endRow"
    and "\<forall>k. row + lf \<le> k \<and> k \<le> row + rt \<longrightarrow> \<not> zt \<le> min_d (cell mip k)"
  shows "IsVisible_mipRows zt mip mipWidth lf rt row endRow a = None"
proof (cases "IsVisible_mipRows zt mip mipWidth lf rt row endRow a")
  case None
  then show ?thesis .
next
  case (Some r)
  from IsVisible_mipRows_stuck_aux[OF Some] assms show ?thesis by blast
qed


text \<open>
  The hierarchy builder makes \<open>built1\<close> of the rasterized 1 x 1 buffer.
\<close>

lemma built1_reached: "BuildDepthHierarchyWork rastered1 = Inr built1"
proof -
  have c: "(zeroDepths(0 := (zeroDepths 0)\<lparr>min_d := 0\<rparr>, 0 := \<lparr>min_d = 0, max_d = 4194304\<rparr>)) = builtCell"
    by (rule ext) (simp add: builtCell_def zeroDepths_def)
  show ?thesis
    unfolding BuildDepthHierarchyWork_def
    by (simp add: rastered1_def sized1_def built1_def Let_def newArray_def onePixel_def
      Build_pixelRows.simps Build_pixelRow1.simps Build_pixelRow2.simps Build_levels.simps
      zeroDepths_def builtCell_def fun_eq_iff)
qed

text \<open>
  Claim C1: with all corners in front of the near plane, \<^verbatim>\<open>IsVisible\<close> scans the ready
  levels from the coarsest and returns false at a level where every covered cell has
  \<open>threshold > max\<close>. The code on the 1 x 1 buffer after a frame, for a box behind the
  rasterized depth: the threshold 8388607 is above the maximum 4194304 of the only cell of
  the only level, and the call does not return. Line 258 takes the row stride of level
  \<open>i\<close> as \<open>width >> (i + 1)\<close>, which is 0 here, where \<^verbatim>\<open>SetSize\<close> and the hierarchy
  builder size the level by rounding the halves up (a width of 1).
\<close>

theorem IsVisible_does_not_return:
  "IsVisible samplePlatform built1 farBox = None"
proof -
  have prj: "IsVisible_project samplePlatform built1
      (tl (map (ModelTransform samplePlatform (viewProj built1)) (boxCorners farBox)))
      (3 / 4, 3 / 4, 5 / 4, 5 / 4, 8388608) = Continue (3 / 4, 5 / 4, 3 / 4, 5 / 4, 8388608)"
    by (simp add: samplePlatform_def identityTransform_def viewportOf_def boxCorners_def
        farBox_def built1_def rastered1_def sized1_def Let_def)
  have rect: "IsVisible_rect built1 (3 / 4) (5 / 4) (3 / 4) (5 / 4) = \<lparr>left = 0, top = 0, right = 0, bottom = 0\<rparr>"
    by (simp add: IsVisible_rect_def int_cast_def built1_def rastered1_def sized1_def Let_def)
  have zt: "int_cast 8388608 - width built1 = 8388607"
    by (simp add: int_cast_def built1_def rastered1_def sized1_def)
  have stuck: "IsVisible_mipRows 8388607 (mipBuffers built1 ! 0) 0 0 0 0 0 True = None"
    by (rule IsVisible_mipRows_stuck) (simp_all add: built1_def builtCell_def)
  have lv: "IsVisible_levels built1 (newArray 5 onePixel, 2) \<lparr>left = 0, top = 0, right = 0, bottom = 0\<rparr> 8388607 (Suc 0) = None"
    using stuck by (simp add: shr_def Let_def built1_def rastered1_def sized1_def)
  have hd0: "hd (map (ModelTransform samplePlatform (viewProj built1)) (boxCorners farBox)) =
      \<lparr>x = - 1 / 2, y = - 1 / 2, z = 1 / 2, w = 1\<rparr>"
    by (simp add: samplePlatform_def identityTransform_def boxCorners_def farBox_def)
  have vt0: "ViewportTransform samplePlatform built1 \<lparr>x = - 1 / 2, y = - 1 / 2, z = 1 / 2, w = 1\<rparr> =
      \<lparr>x = 3 / 4, y = 5 / 4, z = 8388608\<rparr>"
    by (simp add: samplePlatform_def viewportOf_def built1_def rastered1_def sized1_def)
  have b: "buffer built1 = Some (newArray 5 onePixel, 2)" "numTriangleBatches built1 = 1"
    "numReadyMipBuffers built1 = Suc 0"
    by (simp_all add: built1_def rastered1_def)
  show ?thesis
    unfolding IsVisible_def Let_def hd0 vt0 b
    by (simp add: prj rect zt lv del: IsVisible_levels.simps)
qed

subsection \<open>BuildDepthHierarchyWork: the hierarchy bounds the pixels\<close>

text \<open>
  The inner loops of the builder over one row of cells. A loop writes the cells from
  \<open>dest\<close> up to \<open>endp\<close> and no other; the cell at \<open>k\<close> receives the minimum
  and the maximum over the two cells it read in the row at \<open>src\<close> and, in the loop of
  two rows, over the two cells in the row at \<open>src2\<close>.
\<close>

lemma Build_mipRow2_cells:
  "(dest \<le> k \<and> k < endp \<longrightarrow>
      min_d (cell (Build_mipRow2 prev src src2 dest endp mip) k) =
        min (min (min_d (cell prev (src + 2 * (k - dest)))) (min_d (cell prev (src + 2 * (k - dest) + 1))))
            (min (min_d (cell prev (src2 + 2 * (k - dest)))) (min_d (cell prev (src2 + 2 * (k - dest) + 1)))) \<and>
      max_d (cell (Build_mipRow2 prev src src2 dest endp mip) k) =
        max (max (max_d (cell prev (src + 2 * (k - dest)))) (max_d (cell prev (src + 2 * (k - dest) + 1))))
            (max (max_d (cell prev (src2 + 2 * (k - dest)))) (max_d (cell prev (src2 + 2 * (k - dest) + 1))))) \<and>
   (\<not> (dest \<le> k \<and> k < endp) \<longrightarrow>
      cell (Build_mipRow2 prev src src2 dest endp mip) k = cell mip k)"
proof (induction prev src src2 dest endp mip rule: Build_mipRow2.induct)
  case (1 prev src src2 dest endp mip)
  show ?case
  proof (cases "dest < endp")
    case False
    then show ?thesis by (subst (1 2 3) Build_mipRow2.simps) auto
  next
    case True
    define mip2 where "mip2 = (let minUpper = min (min_d (cell prev src)) (min_d (cell prev (src + 1)));
            minLower = min (min_d (cell prev src2)) (min_d (cell prev (src2 + 1)));
            mip = mip\<lparr>cell := (cell mip)(dest := (cell mip dest)\<lparr>min_d := min minUpper minLower\<rparr>)\<rparr>;
            maxUpper = max (max_d (cell prev src)) (max_d (cell prev (src + 1)));
            maxLower = max (max_d (cell prev src2)) (max_d (cell prev (src2 + 1)))
        in mip\<lparr>cell := (cell mip)(dest := (cell mip dest)\<lparr>max_d := max maxUpper maxLower\<rparr>)\<rparr>)"
    have step: "Build_mipRow2 prev src src2 dest endp mip =
        Build_mipRow2 prev (src + 2) (src2 + 2) (dest + 1) endp mip2"
      using True by (subst Build_mipRow2.simps) (simp add: mip2_def Let_def)
    have IH: "(dest + 1 \<le> k \<and> k < endp \<longrightarrow>
      min_d (cell (Build_mipRow2 prev (src + 2) (src2 + 2) (dest + 1) endp mip2) k) =
        min (min (min_d (cell prev (src + 2 + 2 * (k - (dest + 1))))) (min_d (cell prev (src + 2 + 2 * (k - (dest + 1)) + 1))))
            (min (min_d (cell prev (src2 + 2 + 2 * (k - (dest + 1))))) (min_d (cell prev (src2 + 2 + 2 * (k - (dest + 1)) + 1)))) \<and>
      max_d (cell (Build_mipRow2 prev (src + 2) (src2 + 2) (dest + 1) endp mip2) k) =
        max (max (max_d (cell prev (src + 2 + 2 * (k - (dest + 1))))) (max_d (cell prev (src + 2 + 2 * (k - (dest + 1)) + 1))))
            (max (max_d (cell prev (src2 + 2 + 2 * (k - (dest + 1))))) (max_d (cell prev (src2 + 2 + 2 * (k - (dest + 1)) + 1))))) \<and>
   (\<not> (dest + 1 \<le> k \<and> k < endp) \<longrightarrow>
      cell (Build_mipRow2 prev (src + 2) (src2 + 2) (dest + 1) endp mip2) k = cell mip2 k)"
      using "1.IH"[OF True refl refl refl refl refl refl] unfolding mip2_def Let_def by simp
    have idx: "src + 2 + 2 * (k - (dest + 1)) = src + 2 * (k - dest)"
      "src2 + 2 + 2 * (k - (dest + 1)) = src2 + 2 * (k - dest)" by simp_all
    have m2: "min_d (cell mip2 dest) =
        min (min (min_d (cell prev src)) (min_d (cell prev (src + 1))))
            (min (min_d (cell prev src2)) (min_d (cell prev (src2 + 1))))"
      "max_d (cell mip2 dest) =
        max (max (max_d (cell prev src)) (max_d (cell prev (src + 1))))
            (max (max_d (cell prev src2)) (max_d (cell prev (src2 + 1))))"
      "\<And>j. j \<noteq> dest \<Longrightarrow> cell mip2 j = cell mip j"
      by (simp_all add: mip2_def Let_def)
    show ?thesis
    proof (cases "k = dest")
      case True
      then show ?thesis
        unfolding step using IH m2 \<open>dest < endp\<close> by simp
    next
      case False
      then show ?thesis
        unfolding step using IH m2(3)[of k] unfolding idx by auto
    qed
  qed
qed


lemma Build_mipRow1_cells:
  "(dest \<le> k \<and> k < endp \<longrightarrow>
      min_d (cell (Build_mipRow1 prev src dest endp mip) k) =
        min (min_d (cell prev (src + 2 * (k - dest)))) (min_d (cell prev (src + 2 * (k - dest) + 1))) \<and>
      max_d (cell (Build_mipRow1 prev src dest endp mip) k) =
        max (max_d (cell prev (src + 2 * (k - dest)))) (max_d (cell prev (src + 2 * (k - dest) + 1)))) \<and>
   (\<not> (dest \<le> k \<and> k < endp) \<longrightarrow>
      cell (Build_mipRow1 prev src dest endp mip) k = cell mip k)"
proof (induction prev src dest endp mip rule: Build_mipRow1.induct)
  case (1 prev src dest endp mip)
  show ?case
  proof (cases "dest < endp")
    case False
    then show ?thesis by (subst (1 2 3) Build_mipRow1.simps) auto
  next
    case True
    define mip2 where "mip2 = (let mip = mip\<lparr>cell := (cell mip)(dest := (cell mip dest)
                     \<lparr>min_d := min (min_d (cell prev src)) (min_d (cell prev (src + 1)))\<rparr>)\<rparr>
        in mip\<lparr>cell := (cell mip)(dest := (cell mip dest)
                     \<lparr>max_d := max (max_d (cell prev src)) (max_d (cell prev (src + 1)))\<rparr>)\<rparr>)"
    have step: "Build_mipRow1 prev src dest endp mip =
        Build_mipRow1 prev (src + 2) (dest + 1) endp mip2"
      using True by (subst Build_mipRow1.simps) (simp add: mip2_def Let_def)
    have IH: "(dest + 1 \<le> k \<and> k < endp \<longrightarrow>
      min_d (cell (Build_mipRow1 prev (src + 2) (dest + 1) endp mip2) k) =
        min (min_d (cell prev (src + 2 + 2 * (k - (dest + 1))))) (min_d (cell prev (src + 2 + 2 * (k - (dest + 1)) + 1))) \<and>
      max_d (cell (Build_mipRow1 prev (src + 2) (dest + 1) endp mip2) k) =
        max (max_d (cell prev (src + 2 + 2 * (k - (dest + 1))))) (max_d (cell prev (src + 2 + 2 * (k - (dest + 1)) + 1)))) \<and>
   (\<not> (dest + 1 \<le> k \<and> k < endp) \<longrightarrow>
      cell (Build_mipRow1 prev (src + 2) (dest + 1) endp mip2) k = cell mip2 k)"
      using "1.IH"[OF True refl refl] unfolding mip2_def Let_def by simp
    have idx: "src + 2 + 2 * (k - (dest + 1)) = src + 2 * (k - dest)" by simp
    have m2: "min_d (cell mip2 dest) = min (min_d (cell prev src)) (min_d (cell prev (src + 1)))"
      "max_d (cell mip2 dest) = max (max_d (cell prev src)) (max_d (cell prev (src + 1)))"
      "\<And>j. j \<noteq> dest \<Longrightarrow> cell mip2 j = cell mip j"
      by (simp_all add: mip2_def Let_def)
    show ?thesis
    proof (cases "k = dest")
      case True
      then show ?thesis
        unfolding step using IH m2 \<open>dest < endp\<close> by simp
    next
      case False
      then show ?thesis
        unfolding step using IH m2(3)[of k] unfolding idx by auto
    qed
  qed
qed

text \<open>
  The loop over the rows of a level: every cell written satisfies \<open>rowReduced\<close>, and the
  cells before the first row written are left as they were.
\<close>

lemma min4_le:
  fixes a b c d :: int
  shows "min (min a b) (min c d) \<le> a" "min (min a b) (min c d) \<le> b"
    "min (min a b) (min c d) \<le> c" "min (min a b) (min c d) \<le> d"
  by (simp_all add: min_le_iff_disj)

lemma le_max4:
  fixes a b c d :: int
  shows "a \<le> max (max a b) (max c d)" "b \<le> max (max a b) (max c d)"
    "c \<le> max (max a b) (max c d)" "d \<le> max (max a b) (max c d)"
  by (simp_all add: le_max_iff_disj)

lemma Build_mipRows_cells:
  assumes "0 \<le> mipWidth"
  shows "(\<forall>cy cx. yy \<le> cy \<and> cy < mipHeight \<and> 0 \<le> cx \<and> cx < mipWidth \<longrightarrow>
            rowReduced prev prevWidth prevHeight cy cx
              (cell (Build_mipRows prev prevWidth prevHeight mipWidth mipHeight yy mip) (cy * mipWidth + cx))) \<and>
         (\<forall>k. k < yy * mipWidth \<longrightarrow>
            cell (Build_mipRows prev prevWidth prevHeight mipWidth mipHeight yy mip) k = cell mip k)"
  using assms
proof (induction prev prevWidth prevHeight mipWidth mipHeight yy mip rule: Build_mipRows.induct)
  case (1 prev prevWidth prevHeight mipWidth mipHeight yy mip)
  show ?case
  proof (cases "yy < mipHeight")
    case False
    then show ?thesis by (subst (1 2) Build_mipRows.simps) auto
  next
    case True
    define src where "src = (yy * 2) * prevWidth"
    define dest where "dest = yy * mipWidth"
    define endp where "endp = dest + mipWidth"
    define mip1 where "mip1 = (if yy * 2 + 1 < prevHeight
                   then Build_mipRow2 prev src (src + prevWidth) dest endp mip
                   else Build_mipRow1 prev src dest endp mip)"
    let ?res = "Build_mipRows prev prevWidth prevHeight mipWidth mipHeight (yy + 1) mip1"
    have step: "Build_mipRows prev prevWidth prevHeight mipWidth mipHeight yy mip = ?res"
      using True
      by (subst Build_mipRows.simps) (simp add: mip1_def src_def dest_def endp_def Let_def)
    have IH: "(\<forall>cy cx. yy + 1 \<le> cy \<and> cy < mipHeight \<and> 0 \<le> cx \<and> cx < mipWidth \<longrightarrow>
            rowReduced prev prevWidth prevHeight cy cx (cell ?res (cy * mipWidth + cx))) \<and>
         (\<forall>k. k < (yy + 1) * mipWidth \<longrightarrow> cell ?res k = cell mip1 k)"
      using "1.IH"[OF True src_def dest_def endp_def mip1_def "1.prems"] .
    have next_row: "(yy + 1) * mipWidth = dest + mipWidth"
      by (simp add: dest_def algebra_simps)
    have frame1: "\<And>k. \<not> (dest \<le> k \<and> k < endp) \<Longrightarrow> cell mip1 k = cell mip k"
      unfolding mip1_def using Build_mipRow2_cells Build_mipRow1_cells by simp
    have row: "\<And>cx. 0 \<le> cx \<Longrightarrow> cx < mipWidth \<Longrightarrow>
        rowReduced prev prevWidth prevHeight yy cx (cell mip1 (dest + cx))"
    proof -
      fix cx assume cx: "0 \<le> cx" "cx < mipWidth"
      have in_row: "dest \<le> dest + cx \<and> dest + cx < endp"
        using cx by (simp add: endp_def)
      have s1: "src + 2 * (dest + cx - dest) = 2 * yy * prevWidth + 2 * cx"
        by (simp add: src_def)
      have s2: "src + prevWidth + 2 * (dest + cx - dest) = (2 * yy + 1) * prevWidth + 2 * cx"
        by (simp add: src_def algebra_simps)
      show "rowReduced prev prevWidth prevHeight yy cx (cell mip1 (dest + cx))"
      proof (cases "yy * 2 + 1 < prevHeight")
        case True
        then have m: "mip1 = Build_mipRow2 prev src (src + prevWidth) dest endp mip"
          by (simp add: mip1_def)
        from Build_mipRow2_cells[of dest "dest + cx" endp prev src "src + prevWidth" mip] in_row
        have "min_d (cell mip1 (dest + cx)) =
            min (min (min_d (cell prev (2 * yy * prevWidth + 2 * cx))) (min_d (cell prev (2 * yy * prevWidth + 2 * cx + 1))))
                (min (min_d (cell prev ((2 * yy + 1) * prevWidth + 2 * cx))) (min_d (cell prev ((2 * yy + 1) * prevWidth + 2 * cx + 1))))"
          and "max_d (cell mip1 (dest + cx)) =
            max (max (max_d (cell prev (2 * yy * prevWidth + 2 * cx))) (max_d (cell prev (2 * yy * prevWidth + 2 * cx + 1))))
                (max (max_d (cell prev ((2 * yy + 1) * prevWidth + 2 * cx))) (max_d (cell prev ((2 * yy + 1) * prevWidth + 2 * cx + 1))))"
          unfolding m s1 s2 by simp_all
        then show ?thesis unfolding rowReduced_def by (simp only: min4_le le_max4 simp_thms)
      next
        case False
        then have m: "mip1 = Build_mipRow1 prev src dest endp mip"
          by (simp add: mip1_def)
        from Build_mipRow1_cells[of dest "dest + cx" endp prev src mip] in_row
        have "min_d (cell mip1 (dest + cx)) =
            min (min_d (cell prev (2 * yy * prevWidth + 2 * cx))) (min_d (cell prev (2 * yy * prevWidth + 2 * cx + 1)))"
          and "max_d (cell mip1 (dest + cx)) =
            max (max_d (cell prev (2 * yy * prevWidth + 2 * cx))) (max_d (cell prev (2 * yy * prevWidth + 2 * cx + 1)))"
          unfolding m s1 by simp_all
        moreover have "\<not> 2 * yy + 1 < prevHeight" using False by (simp add: mult.commute)
        ultimately show ?thesis unfolding rowReduced_def by simp
      qed
    qed
    have A: "\<forall>cy cx. yy \<le> cy \<and> cy < mipHeight \<and> 0 \<le> cx \<and> cx < mipWidth \<longrightarrow>
            rowReduced prev prevWidth prevHeight cy cx (cell ?res (cy * mipWidth + cx))"
    proof (intro allI impI)
      fix cy cx assume c: "yy \<le> cy \<and> cy < mipHeight \<and> 0 \<le> cx \<and> cx < mipWidth"
      show "rowReduced prev prevWidth prevHeight cy cx (cell ?res (cy * mipWidth + cx))"
      proof (cases "cy = yy")
        case True
        have "dest + cx < (yy + 1) * mipWidth" using c by (simp add: next_row)
        then have "cell ?res (dest + cx) = cell mip1 (dest + cx)" using IH by blast
        then show ?thesis using row[of cx] c True by (simp add: dest_def)
      next
        case False
        then have "yy + 1 \<le> cy" using c by simp
        then show ?thesis using IH c by blast
      qed
    qed
    have B: "\<forall>k. k < yy * mipWidth \<longrightarrow> cell ?res k = cell mip k"
    proof (intro allI impI)
      fix k assume k: "k < yy * mipWidth"
      then have "k < (yy + 1) * mipWidth" using "1.prems" by (simp add: next_row dest_def)
      then have "cell ?res k = cell mip1 k" using IH by blast
      moreover have "cell mip1 k = cell mip k" using frame1[of k] k by (simp add: dest_def)
      ultimately show "cell ?res k = cell mip k" by simp
    qed
    show ?thesis unfolding step using A B by blast
  qed
qed


text \<open>
  The loops of the first level are the loops of the other levels run on the pixels, each
  pixel seen as a cell holding its depth twice.
\<close>

lemma liftPixels_cell:
  "min_d (cell (liftPixels (blk, off)) i) = cell blk (off + i)"
  "max_d (cell (liftPixels (blk, off)) i) = cell blk (off + i)"
  by (simp_all add: liftPixels_def)

lemma Build_pixelRow2_lift:
  "Build_pixelRow2 blk src src2 dest endp mip =
   Build_mipRow2 (liftPixels (blk, off)) (src - off) (src2 - off) dest endp mip"
proof (induction blk src src2 dest endp mip rule: Build_pixelRow2.induct)
  case (1 blk src src2 dest endp mip)
  show ?case
  proof (cases "dest < endp")
    case False
    then show ?thesis
      by (subst Build_pixelRow2.simps, subst Build_mipRow2.simps) simp
  next
    case True
    have a: "src + 2 - off = src - off + 2" "src2 + 2 - off = src2 - off + 2" by simp_all
    show ?thesis
      using True "1.IH"[OF True refl refl refl refl refl refl]
      by (subst Build_pixelRow2.simps, subst Build_mipRow2.simps)
         (simp add: Let_def liftPixels_cell a add.commute)
  qed
qed

lemma Build_pixelRow1_lift:
  "Build_pixelRow1 blk src dest endp mip =
   Build_mipRow1 (liftPixels (blk, off)) (src - off) dest endp mip"
proof (induction blk src dest endp mip rule: Build_pixelRow1.induct)
  case (1 blk src dest endp mip)
  show ?case
  proof (cases "dest < endp")
    case False
    then show ?thesis
      by (subst Build_pixelRow1.simps, subst Build_mipRow1.simps) simp
  next
    case True
    have a: "src + 2 - off = src - off + 2" by simp
    show ?thesis
      using True "1.IH"[OF True refl refl]
      by (subst Build_pixelRow1.simps, subst Build_mipRow1.simps)
         (simp add: Let_def liftPixels_cell a add.commute)
  qed
qed

lemma Build_pixelRows_lift:
  "Build_pixelRows buf wd ht mipWidth mipHeight yy mip =
   Build_mipRows (liftPixels buf) wd ht mipWidth mipHeight yy mip"
proof (induction buf wd ht mipWidth mipHeight yy mip rule: Build_pixelRows.induct)
  case (1 buf wd ht mipWidth mipHeight yy mip)
  show ?case
  proof (cases "yy < mipHeight")
    case False
    then show ?thesis
      by (subst Build_pixelRows.simps, subst Build_mipRows.simps) simp
  next
    case True
    have r2: "\<And>src src2 dest endp m. Build_pixelRow2 (fst buf) src src2 dest endp m =
        Build_mipRow2 (liftPixels buf) (src - snd buf) (src2 - snd buf) dest endp m"
      using Build_pixelRow2_lift[of "fst buf" _ _ _ _ _ "snd buf"] by simp
    have r1: "\<And>src dest endp m. Build_pixelRow1 (fst buf) src dest endp m =
        Build_mipRow1 (liftPixels buf) (src - snd buf) dest endp m"
      using Build_pixelRow1_lift[of "fst buf" _ _ _ _ "snd buf"] by simp
    show ?thesis
      using True "1.IH"[OF True refl refl refl refl]
      by (subst Build_pixelRows.simps, subst Build_mipRows.simps)
         (simp add: Let_def r1 r2)
  qed
qed


text \<open>
  One level: the interval of every cell \<open>(cx, cy)\<close> of the level below lies inside the
  interval of the cell \<open>(cx div 2, cy div 2)\<close> of the level built from it.
\<close>

lemma Build_mipRows_contains:
  assumes "0 \<le> cx" and "cx < prevWidth" and "0 \<le> cy" and "cy < prevHeight"
  shows "min_d (cell (Build_mipRows prev prevWidth prevHeight ((prevWidth + 1) div 2)
                        ((prevHeight + 1) div 2) 0 mip)
                  ((cy div 2) * ((prevWidth + 1) div 2) + cx div 2))
           \<le> min_d (cell prev (cy * prevWidth + cx)) \<and>
         max_d (cell prev (cy * prevWidth + cx))
           \<le> max_d (cell (Build_mipRows prev prevWidth prevHeight ((prevWidth + 1) div 2)
                        ((prevHeight + 1) div 2) 0 mip)
                  ((cy div 2) * ((prevWidth + 1) div 2) + cx div 2))"
proof -
  let ?mw = "(prevWidth + 1) div 2"
  let ?mh = "(prevHeight + 1) div 2"
  let ?c = "cell (Build_mipRows prev prevWidth prevHeight ?mw ?mh 0 mip) ((cy div 2) * ?mw + cx div 2)"
  have mw: "0 \<le> ?mw" using assms(1,2) by simp
  have rng: "0 \<le> cy div 2 \<and> cy div 2 < ?mh \<and> 0 \<le> cx div 2 \<and> cx div 2 < ?mw"
    using assms by auto
  have red: "rowReduced prev prevWidth prevHeight (cy div 2) (cx div 2) ?c"
    using Build_mipRows_cells[OF mw, of 0 ?mh prev prevWidth prevHeight mip] rng by blast
  define a where "a = cy div 2"
  define b where "b = cx div 2"
  have cxs: "cx = 2 * b \<or> cx = 2 * b + 1" unfolding b_def by presburger
  have cys: "cy = 2 * a \<or> cy = 2 * a + 1" unfolding a_def by presburger
  have red': "rowReduced prev prevWidth prevHeight a b ?c"
    using red unfolding a_def b_def .
  show ?thesis
  proof (cases "cy = 2 * a")
    case True
    have i: "cy * prevWidth + cx = 2 * a * prevWidth + 2 * b \<or>
        cy * prevWidth + cx = 2 * a * prevWidth + 2 * b + 1"
      using cxs True by auto
    then show ?thesis using red' unfolding rowReduced_def by metis
  next
    case False
    then have odd: "cy = 2 * a + 1" using cys by simp
    then have lt: "2 * a + 1 < prevHeight" using assms(4) by simp
    have i: "cy * prevWidth + cx = (2 * a + 1) * prevWidth + 2 * b \<or>
        cy * prevWidth + cx = (2 * a + 1) * prevWidth + 2 * b + 1"
      using cxs odd by auto
    then show ?thesis using red' lt unfolding rowReduced_def by metis
  qed
qed

text \<open>
  The cell that covers a pixel lies inside its level, whose size at level \<open>n\<close> is the
  size of the buffer halved \<open>n + 1\<close> times, rounding up.
\<close>

lemma cellOf_range:
  assumes "0 \<le> px" and "px < wd" and "0 \<le> py" and "py < ht"
  shows "0 \<le> fst (cellOf n (px, py)) \<and> fst (cellOf n (px, py)) < halved wd (Suc n) \<and>
         0 \<le> snd (cellOf n (px, py)) \<and> snd (cellOf n (px, py)) < halved ht (Suc n)"
proof (induction n)
  case 0
  show ?case using assms by (auto simp: half_up_div)
next
  case (Suc n)
  then show ?case by (auto simp: half_up_div)
qed


text \<open>
  The loop over the levels keeps the invariant: once the levels below \<open>i\<close> bound the
  pixels they cover, building level \<open>i\<close> from level \<open>i - 1\<close> makes the levels below
  \<open>i + 1\<close> do so. The loop keeps the buffer and its size and counts each level built.
\<close>

lemma conservative_step:
  assumes i: "i = Suc j" and len: "i < length mips"
    and prev: "conservative wd ht buf mips i"
  shows "conservative wd ht buf
           (mips[i := Build_mipRows (mips ! j) (halved wd i) (halved ht i)
                         ((halved wd i + 1) div 2) ((halved ht i + 1) div 2) 0 (mips ! i)])
           (Suc i)"
  unfolding conservative_def
proof (intro allI impI)
  fix k px py
  let ?m = "Build_mipRows (mips ! j) (halved wd i) (halved ht i)
              ((halved wd i + 1) div 2) ((halved ht i + 1) div 2) 0 (mips ! i)"
  let ?mips = "mips[i := ?m]"
  let ?p = "cell (fst buf) (snd buf + py * wd + px)"
  assume a: "k < Suc i \<and> 0 \<le> px \<and> px < wd \<and> 0 \<le> py \<and> py < ht"
  show "min_d (cell (?mips ! k) (snd (cellOf k (px, py)) * halved wd (Suc k) + fst (cellOf k (px, py)))) \<le> ?p \<and>
        ?p \<le> max_d (cell (?mips ! k) (snd (cellOf k (px, py)) * halved wd (Suc k) + fst (cellOf k (px, py))))"
  proof (cases "k < i")
    case True
    then have "?mips ! k = mips ! k" by simp
    then show ?thesis using prev True a unfolding conservative_def by simp
  next
    case False
    then have k: "k = i" using a by simp
    define cx where "cx = fst (cellOf j (px, py))"
    define cy where "cy = snd (cellOf j (px, py))"
    have rng: "0 \<le> cx \<and> cx < halved wd i \<and> 0 \<le> cy \<and> cy < halved ht i"
      using cellOf_range[of px wd py ht j] a unfolding cx_def cy_def i by blast
    have below: "min_d (cell (mips ! j) (cy * halved wd i + cx)) \<le> ?p \<and>
        ?p \<le> max_d (cell (mips ! j) (cy * halved wd i + cx))"
      using prev a unfolding conservative_def cx_def cy_def i by simp
    have step: "min_d (cell ?m ((cy div 2) * ((halved wd i + 1) div 2) + cx div 2))
                  \<le> min_d (cell (mips ! j) (cy * halved wd i + cx)) \<and>
                max_d (cell (mips ! j) (cy * halved wd i + cx))
                  \<le> max_d (cell ?m ((cy div 2) * ((halved wd i + 1) div 2) + cx div 2))"
      using Build_mipRows_contains[of cx "halved wd i" cy "halved ht i" "mips ! j" "mips ! i"] rng
      by blast
    have nth: "?mips ! k = ?m" using k len by simp
    have idx: "snd (cellOf k (px, py)) * halved wd (Suc k) + fst (cellOf k (px, py))
        = (cy div 2) * ((halved wd i + 1) div 2) + cx div 2"
      unfolding k i cx_def cy_def by (simp add: half_up_div)
    show ?thesis unfolding nth idx using below step by linarith
  qed
qed

lemma Build_levels_conservative:
  assumes "1 \<le> i" and "i \<le> length (mipBuffers s)"
    and "mipWidth = halved wd i" and "mipHeight = halved ht i"
    and "conservative wd ht buf (mipBuffers s) i"
  shows "conservative wd ht buf (mipBuffers (Build_levels s i mipWidth mipHeight))
           (length (mipBuffers s)) \<and>
         length (mipBuffers (Build_levels s i mipWidth mipHeight)) = length (mipBuffers s) \<and>
         numReadyMipBuffers (Build_levels s i mipWidth mipHeight)
           = numReadyMipBuffers s + (length (mipBuffers s) - i) \<and>
         buffer (Build_levels s i mipWidth mipHeight) = buffer s \<and>
         width (Build_levels s i mipWidth mipHeight) = width s \<and>
         height (Build_levels s i mipWidth mipHeight) = height s"
  using assms
proof (induction "length (mipBuffers s) - i" arbitrary: s i mipWidth mipHeight)
  case 0
  then have "i = length (mipBuffers s)" by simp
  then have "Build_levels s i mipWidth mipHeight = s"
    by (subst Build_levels.simps) simp
  then show ?case using 0 \<open>i = length (mipBuffers s)\<close> by simp
next
  case (Suc n)
  then have lt: "i < length (mipBuffers s)" by simp
  obtain j where j: "i = Suc j" using Suc.prems(1) by (cases i) auto
  define m where "m = Build_mipRows (mipBuffers s ! j) (halved wd i) (halved ht i)
              ((halved wd i + 1) div 2) ((halved ht i + 1) div 2) 0 (mipBuffers s ! i)"
  define s1 where "s1 = s\<lparr>mipBuffers := (mipBuffers s)[i := m],
                          numReadyMipBuffers := numReadyMipBuffers s + 1\<rparr>"
  have unf: "Build_levels s i mipWidth mipHeight
      = Build_levels s1 (i + 1) ((halved wd i + 1) div 2) ((halved ht i + 1) div 2)"
    using lt Suc.prems(3,4) j
    by (subst Build_levels.simps) (simp add: Let_def s1_def m_def)
  have len1: "length (mipBuffers s1) = length (mipBuffers s)" by (simp add: s1_def)
  have c1: "conservative wd ht buf (mipBuffers s1) (i + 1)"
    using conservative_step[OF j lt Suc.prems(5)] by (simp add: s1_def m_def)
  have n: "n = length (mipBuffers s1) - (i + 1)" using Suc.hyps(2) len1 by simp
  have ih: "conservative wd ht buf
       (mipBuffers (Build_levels s1 (i + 1) ((halved wd i + 1) div 2) ((halved ht i + 1) div 2)))
       (length (mipBuffers s1)) \<and>
     length (mipBuffers (Build_levels s1 (i + 1) ((halved wd i + 1) div 2) ((halved ht i + 1) div 2)))
       = length (mipBuffers s1) \<and>
     numReadyMipBuffers (Build_levels s1 (i + 1) ((halved wd i + 1) div 2) ((halved ht i + 1) div 2))
       = numReadyMipBuffers s1 + (length (mipBuffers s1) - (i + 1)) \<and>
     buffer (Build_levels s1 (i + 1) ((halved wd i + 1) div 2) ((halved ht i + 1) div 2)) = buffer s1 \<and>
     width (Build_levels s1 (i + 1) ((halved wd i + 1) div 2) ((halved ht i + 1) div 2)) = width s1 \<and>
     height (Build_levels s1 (i + 1) ((halved wd i + 1) div 2) ((halved ht i + 1) div 2)) = height s1"
  proof (rule Suc.hyps(1)[OF n])
    show "1 \<le> i + 1" by simp
    show "i + 1 \<le> length (mipBuffers s1)" using lt len1 by simp
    show "(halved wd i + 1) div 2 = halved wd (i + 1)" by (simp add: half_up_div)
    show "(halved ht i + 1) div 2 = halved ht (i + 1)" by (simp add: half_up_div)
    show "conservative wd ht buf (mipBuffers s1) (i + 1)" by (rule c1)
  qed
  have nr: "numReadyMipBuffers s1 = numReadyMipBuffers s + 1" by (simp add: s1_def)
  have fr: "buffer s1 = buffer s \<and> width s1 = width s \<and> height s1 = height s"
    by (simp add: s1_def)
  have cnt: "(length (mipBuffers s) - (i + 1)) + 1 = length (mipBuffers s) - i"
    using lt by simp
  show ?case unfolding unf using ih cnt fr unfolding len1 nr by simp
qed

text \<open>
  The cell of level \<open>n\<close> that covers the pixel \<open>(px, py)\<close> is
  \<open>(px div 2^(n+1), py div 2^(n+1))\<close>: the region of a cell of level \<open>n\<close> is a square of
  \<open>2^(n+1)\<close> pixels a side, cut at the edges of the buffer.
\<close>

lemma cellOf_div: "cellOf n (px, py) = (px div 2 ^ Suc n, py div 2 ^ Suc n)"
proof (induction n)
  case 0
  show ?case by simp
next
  case (Suc n)
  have "\<And>v::int. v div 2 ^ Suc n div 2 = v div 2 ^ Suc (Suc n)"
  proof -
    fix v :: int
    have "v div (2 ^ Suc n * 2) = v div 2 ^ Suc n div 2"
      by (rule zdiv_zmult2_eq) simp
    then show "v div 2 ^ Suc n div 2 = v div 2 ^ Suc (Suc n)"
      by (simp add: mult.commute)
  qed
  then show ?case using Suc by (simp del: power_Suc)
qed

text \<open>
  The first level bounds the pixels it covers.
\<close>

lemma conservative_level0:
  assumes that: "mips \<noteq> []"
  shows "conservative wd ht buf
     (mips[0 := Build_pixelRows buf wd ht ((wd + 1) div 2) ((ht + 1) div 2) 0 (mips ! 0)]) (Suc 0)"
  unfolding conservative_def
proof (intro allI impI)
  fix k px py
  let ?m = "Build_pixelRows buf wd ht ((wd + 1) div 2) ((ht + 1) div 2) 0 (mips ! 0)"
  let ?p = "cell (fst buf) (snd buf + py * wd + px)"
  assume a: "k < Suc 0 \<and> 0 \<le> px \<and> px < wd \<and> 0 \<le> py \<and> py < ht"
  then have k: "k = 0" by simp
  have nth: "mips[0 := ?m] ! k = ?m" using k that by (cases mips) auto
  have lift: "?m = Build_mipRows (liftPixels buf) wd ht ((wd + 1) div 2) ((ht + 1) div 2) 0 (mips ! 0)"
    by (rule Build_pixelRows_lift)
  have step: "min_d (cell ?m ((py div 2) * ((wd + 1) div 2) + px div 2))
                \<le> min_d (cell (liftPixels buf) (py * wd + px)) \<and>
              max_d (cell (liftPixels buf) (py * wd + px))
                \<le> max_d (cell ?m ((py div 2) * ((wd + 1) div 2) + px div 2))"
    unfolding lift using Build_mipRows_contains[of px wd py ht "liftPixels buf" "mips ! 0"] a
    by blast
  have px: "min_d (cell (liftPixels buf) (py * wd + px)) = ?p \<and>
            max_d (cell (liftPixels buf) (py * wd + px)) = ?p"
    by (simp add: liftPixels_def add.assoc)
  have idx: "snd (cellOf k (px, py)) * halved wd (Suc k) + fst (cellOf k (px, py))
      = (py div 2) * ((wd + 1) div 2) + px div 2"
    unfolding k by (simp add: half_up_div)
  show "min_d (cell (mips[0 := ?m] ! k) (snd (cellOf k (px, py)) * halved wd (Suc k) + fst (cellOf k (px, py)))) \<le> ?p \<and>
        ?p \<le> max_d (cell (mips[0 := ?m] ! k) (snd (cellOf k (px, py)) * halved wd (Suc k) + fst (cellOf k (px, py))))"
    unfolding nth idx using step px by simp
qed

text \<open>
  Claim C2: after the hierarchy build completes, for every level \<open>N\<close> and every cell of
  that level, \<open>cell.min \<le> d\<close> and \<open>cell.max \<ge> d\<close> for every raw depth \<open>d\<close> of a pixel in
  the region the cell covers. On a buffer that has been allocated (a pixel buffer and at
  least one level, as every successful \<^verbatim>\<open>SetSize\<close> leaves) the build returns; it keeps the
  pixel buffer and the size, counts every level as ready, and for every level \<open>n\<close> and
  every pixel \<open>(px, py)\<close> of the buffer, the cell of level \<open>n\<close> that covers the pixel has
  \<open>min \<le> d \<le> max\<close> for the depth \<open>d\<close> of the pixel. The loops read \<open>src[1]\<close> also in the
  last column of a level of odd width, which is the first entry of the next row or the
  entry behind the level; the theorem holds whatever that entry is, since reading it can
  only widen the interval.
\<close>

theorem BuildDepthHierarchyWork_conservative:
  assumes "buffer s = Some buf" and "mipBuffers s \<noteq> []"
  shows "\<exists>s'. BuildDepthHierarchyWork s = Inr s' \<and>
           buffer s' = Some buf \<and> width s' = width s \<and> height s' = height s \<and>
           length (mipBuffers s') = length (mipBuffers s) \<and>
           numReadyMipBuffers s' = numReadyMipBuffers s + length (mipBuffers s) \<and>
           (\<forall>n px py. n < length (mipBuffers s') \<and>
                0 \<le> px \<and> px < width s' \<and> 0 \<le> py \<and> py < height s' \<longrightarrow>
              min_d (levelCell s' n (cellOf n (px, py))) \<le> pixelAt s' buf px py \<and>
              pixelAt s' buf px py \<le> max_d (levelCell s' n (cellOf n (px, py))))"
proof -
  define m where "m = Build_pixelRows buf (width s) (height s) ((width s + 1) div 2)
                        ((height s + 1) div 2) 0 (mipBuffers s ! 0)"
  define s1 where "s1 = s\<lparr>mipBuffers := (mipBuffers s)[0 := m],
                          numReadyMipBuffers := numReadyMipBuffers s + 1\<rparr>"
  define s' where "s' = Build_levels s1 1 ((width s + 1) div 2) ((height s + 1) div 2)"
  have run: "BuildDepthHierarchyWork s = Inr s'"
    using assms by (simp add: BuildDepthHierarchyWork_def Let_def s'_def s1_def m_def)
  have len1: "length (mipBuffers s1) = length (mipBuffers s)" by (simp add: s1_def)
  have pos: "1 \<le> length (mipBuffers s)" using assms(2) by (cases "mipBuffers s") auto
  have c1: "conservative (width s) (height s) buf (mipBuffers s1) 1"
    using conservative_level0[OF assms(2), of "width s" "height s" buf]
    by (simp add: s1_def m_def)
  have all: "conservative (width s) (height s) buf (mipBuffers s') (length (mipBuffers s1)) \<and>
      length (mipBuffers s') = length (mipBuffers s1) \<and>
      numReadyMipBuffers s' = numReadyMipBuffers s1 + (length (mipBuffers s1) - 1) \<and>
      buffer s' = buffer s1 \<and> width s' = width s1 \<and> height s' = height s1"
    unfolding s'_def
  proof (rule Build_levels_conservative)
    show "1 \<le> (1::nat)" by simp
    show "1 \<le> length (mipBuffers s1)" using pos len1 by simp
    show "(width s + 1) div 2 = halved (width s) 1" by (simp add: half_up_div)
    show "(height s + 1) div 2 = halved (height s) 1" by (simp add: half_up_div)
    show "conservative (width s) (height s) buf (mipBuffers s1) 1" by (rule c1)
  qed
  have fr: "buffer s1 = Some buf \<and> width s1 = width s \<and> height s1 = height s \<and>
      numReadyMipBuffers s1 = numReadyMipBuffers s + 1"
    using assms(1) by (simp add: s1_def)
  have frame: "buffer s' = Some buf \<and> width s' = width s \<and> height s' = height s \<and>
      length (mipBuffers s') = length (mipBuffers s) \<and>
      numReadyMipBuffers s' = numReadyMipBuffers s + length (mipBuffers s)"
    using all fr len1 pos by simp
  have cons: "\<forall>n px py. n < length (mipBuffers s') \<and>
                0 \<le> px \<and> px < width s' \<and> 0 \<le> py \<and> py < height s' \<longrightarrow>
              min_d (levelCell s' n (cellOf n (px, py))) \<le> pixelAt s' buf px py \<and>
              pixelAt s' buf px py \<le> max_d (levelCell s' n (cellOf n (px, py)))"
  proof -
    have w: "width s' = width s" and h: "height s' = height s"
      and l: "length (mipBuffers s') = length (mipBuffers s)"
      using frame by simp_all
    have c: "conservative (width s) (height s) buf (mipBuffers s') (length (mipBuffers s))"
      using all len1 by simp
    show ?thesis
      unfolding levelCell_def pixelAt_def w h l using c unfolding conservative_def .
  qed
  show ?thesis using run frame cons by blast
qed

text \<open>
  On the 3 x 3 buffer: the build returns with both levels ready, the single cell of level 1
  covers the pixel \<open>(2, 2)\<close>, whose depth is 9000, and bounds it.
\<close>

theorem BuildDepthHierarchyWork_conservative_witness:
  "buffer rastered3 = Some (newArray 17 ninePixels, 4) \<and> mipBuffers rastered3 \<noteq> [] \<and>
   BuildDepthHierarchyWork rastered3 = Inr (projr (BuildDepthHierarchyWork rastered3)) \<and>
   length (mipBuffers (projr (BuildDepthHierarchyWork rastered3))) = 2 \<and>
   numReadyMipBuffers (projr (BuildDepthHierarchyWork rastered3)) = 2 \<and>
   cellOf 1 (2, 2) = (0, 0) \<and>
   pixelAt (projr (BuildDepthHierarchyWork rastered3)) (newArray 17 ninePixels, 4) 2 2 = 9000 \<and>
   min_d (levelCell (projr (BuildDepthHierarchyWork rastered3)) 1 (0, 0)) \<le> 9000 \<and>
   9000 \<le> max_d (levelCell (projr (BuildDepthHierarchyWork rastered3)) 1 (0, 0))"
proof -
  let ?buf = "(newArray 17 ninePixels, 4)"
  have h1: "buffer rastered3 = Some ?buf" by (simp add: rastered3_def)
  have h2: "mipBuffers rastered3 \<noteq> []" by (simp add: rastered3_def)
  obtain s' where r: "BuildDepthHierarchyWork rastered3 = Inr s'"
    and w: "width s' = width rastered3" and h: "height s' = height rastered3"
    and l: "length (mipBuffers s') = length (mipBuffers rastered3)"
    and n: "numReadyMipBuffers s' = numReadyMipBuffers rastered3 + length (mipBuffers rastered3)"
    and c: "\<forall>n px py. n < length (mipBuffers s') \<and>
                0 \<le> px \<and> px < width s' \<and> 0 \<le> py \<and> py < height s' \<longrightarrow>
              min_d (levelCell s' n (cellOf n (px, py))) \<le> pixelAt s' ?buf px py \<and>
              pixelAt s' ?buf px py \<le> max_d (levelCell s' n (cellOf n (px, py)))"
    using BuildDepthHierarchyWork_conservative[OF h1 h2] by blast
  have p: "projr (BuildDepthHierarchyWork rastered3) = s'" using r by simp
  have w3: "width s' = 3" and h3: "height s' = 3" and l2: "length (mipBuffers s') = 2"
    and n2: "numReadyMipBuffers s' = 2"
    using w h l n by (simp_all add: rastered3_def sized1_def)
  have co: "cellOf 1 (2, 2) = (0, 0)" by simp
  have px: "pixelAt s' ?buf 2 2 = 9000"
    by (simp add: pixelAt_def w3 newArray_def ninePixels_def)
  have "min_d (levelCell s' 1 (cellOf 1 (2, 2))) \<le> pixelAt s' ?buf 2 2 \<and>
        pixelAt s' ?buf 2 2 \<le> max_d (levelCell s' 1 (cellOf 1 (2, 2)))"
  proof -
    have "1 < length (mipBuffers s') \<and> 0 \<le> (2::int) \<and> 2 < width s' \<and> 0 \<le> (2::int) \<and> 2 < height s'"
      using w3 h3 l2 by simp
    then show ?thesis using c by blast
  qed
  then have b: "min_d (levelCell s' 1 (0, 0)) \<le> 9000 \<and> 9000 \<le> max_d (levelCell s' 1 (0, 0))"
    unfolding co px .
  show ?thesis unfolding p using h1 h2 r l2 n2 co px b by simp
qed

end
